theory Spec2Isabelle
  imports Main "HOL-Library.Sublist" "HOL-Library.AList"
begin

section \<open>Text primitives of the scraper\<close>

text \<open>
  Python strings are modelled as \<open>string\<close>; a \<open>char\<close> stands for a code point below
  256. \<open>is_space\<close> is the whitespace class shared by \<open>str.strip()\<close>, by \<open>\s\<close> in a
  \<open>str\<close> pattern of \<open>re\<close> and by the tokeniser of the \<open>class\<close> attribute: the code
  points 9-13, 28-32, 133 and 160.
\<close>

definition is_space :: "char \<Rightarrow> bool" where
  "is_space c = (c \<in> set [CHR 0x09, CHR 0x0A, CHR 0x0B, CHR 0x0C, CHR 0x0D,
                           CHR 0x1C, CHR 0x1D, CHR 0x1E, CHR 0x1F, CHR 0x20,
                           CHR 0x85, CHR 0xA0])"

definition non_space :: "char \<Rightarrow> bool" where
  "non_space c = (\<not> is_space c)"

text \<open>\<open>s.strip()\<close>: whitespace removed at both ends.\<close>

definition strip :: "string \<Rightarrow> string" where
  "strip s = rev (dropWhile is_space (rev (dropWhile is_space s)))"

text \<open>\<open>needle in haystack\<close> on strings: the needle occurs at some position.\<close>

fun str_contains :: "string \<Rightarrow> string \<Rightarrow> bool" where
  "str_contains needle [] = (needle = [])"
| "str_contains needle (c # cs) = (prefix needle (c # cs) \<or> str_contains needle cs)"

text \<open>\<open>sep.join(parts)\<close>.\<close>

fun join :: "string \<Rightarrow> string list \<Rightarrow> string" where
  "join sep [] = []"
| "join sep [p] = p"
| "join sep (p # q # ps) = p @ sep @ join sep (q # ps)"

text \<open>
  \<open>s.split(':', 1)[1]\<close>: the text after the first colon. Without a colon the split has
  one element and the index raises; that case is \<open>None\<close> here and becomes the error where
  the extractor uses it.
\<close>

fun after_first_colon :: "string \<Rightarrow> string option" where
  "after_first_colon [] = None"
| "after_first_colon (c # cs) = (if c = CHR '':'' then Some cs else after_first_colon cs)"

section \<open>The three substitutions on the authors text\<close>

text \<open>
  Each matcher takes the text at the position where \<open>re\<close> tries the pattern and returns
  the text left after the match, or \<open>None\<close>. The patterns are
  \<open>\s*email:[^\s]+\<close>, \<open>\s*\(\<close> and \<open>\)\s*\<close>. The greedy \<open>\s*\<close> never has to give
  characters back, since the character that must follow it (\<open>e\<close>, or the parenthesis) is
  not whitespace; \<open>[^\s]+\<close> and the trailing \<open>\s*\<close> end their pattern, so the longest run
  is the match.
\<close>

definition match_email :: "string \<Rightarrow> string option" where
  "match_email s =
     (let r = dropWhile is_space s in
      if prefix ''email:'' r \<and> takeWhile non_space (drop 6 r) \<noteq> []
      then Some (dropWhile non_space (drop 6 r))
      else None)"

definition match_open :: "string \<Rightarrow> string option" where
  "match_open s =
     (case dropWhile is_space s of
        [] \<Rightarrow> None
      | c # rest \<Rightarrow> if c = CHR ''('' then Some rest else None)"

definition match_close :: "string \<Rightarrow> string option" where
  "match_close s =
     (case s of
        [] \<Rightarrow> None
      | c # rest \<Rightarrow> if c = CHR '')'' then Some (dropWhile is_space rest) else None)"

lemma match_email_shorter: "match_email s = Some r \<Longrightarrow> length r < length s"
proof -
  assume a: "match_email s = Some r"
  let ?d = "dropWhile is_space s"
  from a have p: "prefix ''email:'' ?d" and r: "r = dropWhile non_space (drop 6 ?d)"
    by (auto simp: match_email_def Let_def split: if_splits)
  from p have "6 \<le> length ?d"
    using prefix_length_le by fastforce
  moreover have "length r \<le> length (drop 6 ?d)"
    unfolding r by (rule length_dropWhile_le)
  moreover have "length ?d \<le> length s"
    by (rule length_dropWhile_le)
  ultimately show ?thesis by simp
qed

lemma match_open_shorter: "match_open s = Some r \<Longrightarrow> length r < length s"
proof -
  assume a: "match_open s = Some r"
  then have "dropWhile is_space s = CHR ''('' # r"
    by (auto simp: match_open_def split: list.splits if_splits)
  moreover have "length (dropWhile is_space s) \<le> length s"
    by (rule length_dropWhile_le)
  ultimately show ?thesis by simp
qed

lemma match_close_shorter: "match_close s = Some r \<Longrightarrow> length r < length s"
proof -
  assume a: "match_close s = Some r"
  then obtain rest where s: "s = CHR '')'' # rest" and r: "r = dropWhile is_space rest"
    by (auto simp: match_close_def split: list.splits if_splits)
  have "length r \<le> length rest"
    unfolding r by (rule length_dropWhile_le)
  with s show ?thesis by simp
qed

text \<open>
  \<open>re.sub(pattern, '.', s)\<close> scans from the left: where the pattern matches, the match is
  replaced by a period and the scan goes on after it; elsewhere the character is kept.
  None of the three patterns matches the empty string.
\<close>

function sub_email :: "string \<Rightarrow> string" where
  "sub_email [] = []"
| "sub_email (c # cs) =
     (case match_email (c # cs) of
        Some rest \<Rightarrow> CHR ''.'' # sub_email rest
      | None \<Rightarrow> c # sub_email cs)"
  by pat_completeness auto
termination
  by (relation "measure length") (auto dest: match_email_shorter)

function sub_open :: "string \<Rightarrow> string" where
  "sub_open [] = []"
| "sub_open (c # cs) =
     (case match_open (c # cs) of
        Some rest \<Rightarrow> CHR ''.'' # sub_open rest
      | None \<Rightarrow> c # sub_open cs)"
  by pat_completeness auto
termination
  by (relation "measure length") (auto dest: match_open_shorter)

function sub_close :: "string \<Rightarrow> string" where
  "sub_close [] = []"
| "sub_close (c # cs) =
     (case match_close (c # cs) of
        Some rest \<Rightarrow> CHR ''.'' # sub_close rest
      | None \<Rightarrow> c # sub_close cs)"
  by pat_completeness auto
termination
  by (relation "measure length") (auto dest: match_close_shorter)

text \<open>The three calls of \<open>re.sub\<close> in the order of the source.\<close>

definition clean_authors :: "string \<Rightarrow> string" where
  "clean_authors s = sub_close (sub_open (sub_email s))"

section \<open>The parsed document\<close>

text \<open>
  The tree that \<open>BeautifulSoup(markup, 'html.parser')\<close> builds. A tag has a name, a
  dictionary of attributes (read with \<open>map_of\<close>) and its children in document order.
  \<open>NavigableString\<close> is a string that \<open>get_text\<close> collects; \<open>OtherString\<close> is one it
  skips (a comment, the body of a script or style element). The parser itself is a
  parameter \<open>parse\<close> of the functions that call it: it returns the document, a tag whose
  children are the top-level nodes, or the error it raises on markup it refuses.
\<close>

datatype node =
    Tag string "(string \<times> string) list" "node list"
  | NavigableString string
  | OtherString string

fun descendants :: "node \<Rightarrow> node list" where
  "descendants (Tag nm at cs) = concat (map (\<lambda>c. c # descendants c) cs)"
| "descendants (NavigableString s) = []"
| "descendants (OtherString s) = []"

fun tag_named :: "string \<Rightarrow> node \<Rightarrow> bool" where
  "tag_named nm (Tag t at cs) = (t = nm)"
| "tag_named nm (NavigableString s) = False"
| "tag_named nm (OtherString s) = False"

fun get_attr :: "node \<Rightarrow> string \<Rightarrow> string option" where
  "get_attr (Tag t at cs) k = map_of at k"
| "get_attr (NavigableString s) k = None"
| "get_attr (OtherString s) k = None"

text \<open>\<open>tag.find_all(name, filter)\<close> and \<open>tag.find(name, filter)\<close>: the tags below \<open>tag\<close>
  with that name that pass the attribute filter, in document order; \<open>find\<close> is the first.\<close>

definition soup_find_all :: "string \<Rightarrow> (node \<Rightarrow> bool) \<Rightarrow> node \<Rightarrow> node list" where
  "soup_find_all nm flt n = filter (\<lambda>x. tag_named nm x \<and> flt x) (descendants n)"

definition soup_find :: "string \<Rightarrow> (node \<Rightarrow> bool) \<Rightarrow> node \<Rightarrow> node option" where
  "soup_find nm flt n = (case soup_find_all nm flt n of [] \<Rightarrow> None | x # _ \<Rightarrow> Some x)"

text \<open>A filter \<open>attr=value\<close> on a single-valued attribute (\<open>name\<close>, \<open>id\<close>, \<open>role\<close>).\<close>

definition attr_is :: "string \<Rightarrow> string \<Rightarrow> node \<Rightarrow> bool" where
  "attr_is k v n = (get_attr n k = Some v)"

lemma length_dropWhile_token:
  "dropWhile is_space s \<noteq> [] \<Longrightarrow> length (dropWhile non_space (dropWhile is_space s)) < length s"
proof -
  assume ne: "dropWhile is_space s \<noteq> []"
  then obtain c r where cr: "dropWhile is_space s = c # r"
    by (cases "dropWhile is_space s") auto
  then have "\<not> is_space c"
    by (simp add: dropWhile_eq_Cons_conv)
  then have "dropWhile non_space (c # r) = dropWhile non_space r"
    by (simp add: non_space_def)
  moreover have "length (dropWhile non_space r) \<le> length r"
    by (rule length_dropWhile_le)
  moreover have "length (c # r) \<le> length s"
    unfolding cr [symmetric] by (rule length_dropWhile_le)
  ultimately show ?thesis using cr by simp
qed

text \<open>The \<open>class\<close> attribute is kept as the list of its whitespace-separated tokens.\<close>

function tokens :: "string \<Rightarrow> string list" where
  "tokens s =
     (if dropWhile is_space s = [] then []
      else takeWhile non_space (dropWhile is_space s)
           # tokens (dropWhile non_space (dropWhile is_space s)))"
  by pat_completeness auto
termination
proof (relation "measure length")
  show "wf (measure length)" by simp
next
  fix s :: string
  assume "dropWhile is_space s \<noteq> []"
  then have "length (dropWhile non_space (dropWhile is_space s)) < length s"
    by (rule length_dropWhile_token)
  then show "(dropWhile non_space (dropWhile is_space s), s) \<in> measure length"
    by simp
qed

declare tokens.simps [simp del]

text \<open>A filter \<open>class_=c\<close>: some token of the class list is \<open>c\<close>, or the whole list joined
  by spaces is.\<close>

definition has_class :: "string \<Rightarrow> node \<Rightarrow> bool" where
  "has_class c n =
     (case get_attr n ''class'' of
        None \<Rightarrow> False
      | Some v \<Rightarrow> c \<in> set (tokens v) \<or> join '' '' (tokens v) = c)"

text \<open>The filter \<open>id=lambda x: x and x.startswith('corresp1-')\<close>; \<open>x\<close> is \<open>None\<close> when
  the tag has no \<open>id\<close>.\<close>

definition id_is_corresp :: "node \<Rightarrow> bool" where
  "id_is_corresp n =
     (case get_attr n ''id'' of
        None \<Rightarrow> False
      | Some x \<Rightarrow> x \<noteq> [] \<and> prefix ''corresp1-'' x)"

fun nav_string :: "node \<Rightarrow> string option" where
  "nav_string (NavigableString s) = Some s"
| "nav_string (Tag t at cs) = None"
| "nav_string (OtherString s) = None"

text \<open>\<open>tag.get_text()\<close> joins the strings below the tag; with \<open>strip=True\<close> each string
  is stripped first and the empty ones are dropped.\<close>

definition get_text :: "node \<Rightarrow> string" where
  "get_text n = concat (List.map_filter nav_string (descendants n))"

definition get_text_strip :: "node \<Rightarrow> string" where
  "get_text_strip n =
     concat (filter (\<lambda>s. s \<noteq> []) (map strip (List.map_filter nav_string (descendants n))))"

text \<open>\<open>tag.string\<close>: the string of a tag with exactly one child, followed through nested
  single children; \<open>None\<close> otherwise.\<close>

fun string_of :: "node \<Rightarrow> string option" where
  "string_of (NavigableString s) = Some s"
| "string_of (OtherString s) = Some s"
| "string_of (Tag t at []) = None"
| "string_of (Tag t at [c]) = string_of c"
| "string_of (Tag t at (c # d # cs)) = None"

section \<open>The DOI pattern\<close>

text \<open>
  \<open>re.search(r"doi\s*:\s*'([^']+)'", s)\<close>: the first position where the pattern matches,
  and its group. After each \<open>\s*\<close> the pattern needs a colon or a quote, and after
  \<open>[^']+\<close> a quote, so no greedy run has to give characters back.
\<close>

definition quote :: char where
  "quote = CHR 0x27"

definition match_doi :: "string \<Rightarrow> string option" where
  "match_doi s =
     (if prefix ''doi'' s then
        (case dropWhile is_space (drop 3 s) of
           [] \<Rightarrow> None
         | c # r1 \<Rightarrow>
             if c = CHR '':'' then
               (case dropWhile is_space r1 of
                  [] \<Rightarrow> None
                | q # r2 \<Rightarrow>
                    if q = quote \<and> takeWhile (\<lambda>x. x \<noteq> quote) r2 \<noteq> []
                       \<and> dropWhile (\<lambda>x. x \<noteq> quote) r2 \<noteq> []
                    then Some (takeWhile (\<lambda>x. x \<noteq> quote) r2)
                    else None)
             else None)
      else None)"

fun re_search_doi :: "string \<Rightarrow> string option" where
  "re_search_doi [] = None"
| "re_search_doi (c # cs) =
     (case match_doi (c # cs) of Some g \<Rightarrow> Some g | None \<Rightarrow> re_search_doi cs)"

section \<open>Errors and the working directory\<close>

text \<open>
  Every exception of a run is a value. \<open>IndexError\<close> is the failed index after
  \<open>split\<close>; \<open>ParserRejectedMarkup\<close> is raised by \<open>BeautifulSoup\<close> on markup that
  \<open>html.parser\<close> refuses; \<open>FetchError\<close> is a page that does not load; the other two
  come from \<open>open\<close> and \<open>os.remove\<close>. A failure to write the output table is outside the
  model.
\<close>

datatype error =
  IndexError | ParserRejectedMarkup | FetchError | FileNotFoundError | IsADirectoryError

definition bind_err :: "error + 'a \<Rightarrow> ('a \<Rightarrow> error + 'b) \<Rightarrow> error + 'b" where
  "bind_err m f = (case m of Inl e \<Rightarrow> Inl e | Inr x \<Rightarrow> f x)"

text \<open>
  The working directory maps entry names to entries; files hold decoded text. A path is
  \<open>name\<close> or \<open>./name\<close>. The order in which \<open>os.listdir\<close> returns the names is not fixed
  by the directory: it is the parameter \<open>listdir\<close> of the staging driver.

  The files are opened in text mode. Reading translates every \<open>CR LF\<close> and every single
  \<open>CR\<close> to \<open>LF\<close>; writing stores the text as it is, the line separator of the platform
  being \<open>LF\<close>.
\<close>

fun universal_newlines :: "string \<Rightarrow> string" where
  "universal_newlines [] = []"
| "universal_newlines [c] = (if c = CHR 0x0D then [CHR 0x0A] else [c])"
| "universal_newlines (c # d # cs) =
     (if c = CHR 0x0D
      then (if d = CHR 0x0A then CHR 0x0A # universal_newlines cs
            else CHR 0x0A # universal_newlines (d # cs))
      else c # universal_newlines (d # cs))"

datatype entry = File string | Dir

type_synonym directory = "(string \<times> entry) list"

definition resolve :: "string \<Rightarrow> string" where
  "resolve path = (if prefix ''./'' path then drop 2 path else path)"

definition os_path_join :: "string \<Rightarrow> string \<Rightarrow> string" where
  "os_path_join d f = d @ ''/'' @ f"

definition open_read :: "directory \<Rightarrow> string \<Rightarrow> error + string" where
  "open_read fs path =
     (case map_of fs (resolve path) of
        None \<Rightarrow> Inl FileNotFoundError
      | Some Dir \<Rightarrow> Inl IsADirectoryError
      | Some (File text) \<Rightarrow> Inr (universal_newlines text))"

definition open_write :: "directory \<Rightarrow> string \<Rightarrow> string \<Rightarrow> error + directory" where
  "open_write fs path text =
     (case map_of fs (resolve path) of
        Some Dir \<Rightarrow> Inl IsADirectoryError
      | _ \<Rightarrow> Inr (AList.update (resolve path) (File text) fs))"

definition os_remove :: "directory \<Rightarrow> string \<Rightarrow> error + directory" where
  "os_remove fs path =
     (case map_of fs (resolve path) of
        None \<Rightarrow> Inl FileNotFoundError
      | Some Dir \<Rightarrow> Inl IsADirectoryError
      | Some (File text) \<Rightarrow> Inr (AList.delete (resolve path) fs))"

section \<open>Link Collector and Page Fetcher\<close>

definition base_url :: string where
  "base_url = ''https://journals.sagepub.com''"

definition html_directory :: string where
  "html_directory = ''.''"

text \<open>\<open>page.query_selector_all('a[href^="/doi/abs/"]')\<close> on the rendered listing page,
  then the \<open>href\<close> of each match.\<close>

definition is_article_link :: "node \<Rightarrow> bool" where
  "is_article_link n =
     (tag_named ''a'' n \<and>
      (case get_attr n ''href'' of None \<Rightarrow> False | Some h \<Rightarrow> prefix ''/doi/abs/'' h))"

definition extract_links :: "node \<Rightarrow> string list" where
  "extract_links page =
     List.map_filter (\<lambda>link. get_attr link ''href'') (filter is_article_link (descendants page))"

text \<open>The renderer (new page, \<open>goto\<close>, wait for network idle, \<open>content\<close>, close) is the
  parameter \<open>render\<close>: the HTML of a URL, or the error that ends the run.\<close>

definition process_page :: "(string \<Rightarrow> error + string) \<Rightarrow> string \<Rightarrow> error + string" where
  "process_page render url = render url"

section \<open>Markup Extractor, shared steps\<close>

text \<open>The test on one child div of the history block: its first \<open>b.core-label\<close> exists
  and its text contains the marker.\<close>

definition has_published_label :: "node \<Rightarrow> bool" where
  "has_published_label d =
     (case soup_find ''b'' (has_class ''core-label'') d of
        None \<Rightarrow> False
      | Some label \<Rightarrow> str_contains ''Article first published online'' (get_text label))"

text \<open>\<open>div.get_text(strip=True).split(':', 1)[1].strip()\<close>.\<close>

definition date_of_div :: "node \<Rightarrow> error + string" where
  "date_of_div d =
     (case after_first_colon (get_text_strip d) of
        None \<Rightarrow> Inl IndexError
      | Some rest \<Rightarrow> Inr (strip rest))"

text \<open>The test on one script and the match inside it: \<open>script.string\<close> is non-empty,
  contains the marker, and the DOI pattern is found.\<close>

definition script_doi :: "node \<Rightarrow> string option" where
  "script_doi script =
     (case string_of script of
        None \<Rightarrow> None
      | Some s \<Rightarrow>
          if s \<noteq> [] \<and> str_contains ''var journalAdParams ='' s then re_search_doi s
          else None)"

text \<open>\<open>if title:\<close> holds for a title that is neither \<open>None\<close> nor empty.\<close>

fun truthy :: "string option \<Rightarrow> bool" where
  "truthy None = False"
| "truthy (Some s) = (s \<noteq> [])"

section \<open>Markup Extractor of the staging variant\<close>

text \<open>
  \<open>webScraping.py\<close> and \<open>webScraping3.py\<close> hold the same five functions. Each opens the
  staged file, parses it and extracts one field; a file that does not open and markup
  that the parser refuses end the call with the error.
\<close>

definition extract_title_from_html ::
  "(string \<Rightarrow> error + node) \<Rightarrow> directory \<Rightarrow> string \<Rightarrow> error + string option" where
  "extract_title_from_html parse fs file_path =
     bind_err (open_read fs file_path) (\<lambda>file.
     bind_err (parse file) (\<lambda>soup.
       case soup_find ''meta'' (attr_is ''name'' ''dc.Title'') soup of
         None \<Rightarrow> Inr None
       | Some meta_tag \<Rightarrow>
           (case get_attr meta_tag ''content'' of
              None \<Rightarrow> Inr None
            | Some content \<Rightarrow> Inr (Some content))))"

definition extract_authors_from_html ::
  "(string \<Rightarrow> error + node) \<Rightarrow> directory \<Rightarrow> string \<Rightarrow> error + string option" where
  "extract_authors_from_html parse fs file_path =
     bind_err (open_read fs file_path) (\<lambda>file.
     bind_err (parse file) (\<lambda>soup.
       let author_divs = soup_find_all ''div'' id_is_corresp soup;
           authors = map get_text_strip author_divs;
           authors_cleaned = map sub_email authors;
           authors_cleaned = map sub_open authors_cleaned;
           authors_cleaned = map sub_close authors_cleaned
       in Inr (if authors_cleaned \<noteq> [] then Some (join '' '' authors_cleaned) else None)))"

text \<open>The loop over the divs of the history block returns at the first labelled div.\<close>

fun first_published :: "node list \<Rightarrow> error + string option" where
  "first_published [] = Inr None"
| "first_published (d # ds) =
     (if has_published_label d
      then (case date_of_div d of Inl e \<Rightarrow> Inl e | Inr date \<Rightarrow> Inr (Some date))
      else first_published ds)"

definition extract_publication_date_from_html ::
  "(string \<Rightarrow> error + node) \<Rightarrow> directory \<Rightarrow> string \<Rightarrow> error + string option" where
  "extract_publication_date_from_html parse fs file_path =
     bind_err (open_read fs file_path) (\<lambda>file.
     bind_err (parse file) (\<lambda>soup.
       case soup_find ''div'' (has_class ''core-history'') soup of
         None \<Rightarrow> Inr None
       | Some core_history_div \<Rightarrow>
           first_published (soup_find_all ''div'' (\<lambda>x. True) core_history_div)))"

text \<open>The loop over the scripts returns at the first script with a match.\<close>

fun first_doi :: "node list \<Rightarrow> string option" where
  "first_doi [] = None"
| "first_doi (script # scripts) =
     (case script_doi script of Some g \<Rightarrow> Some g | None \<Rightarrow> first_doi scripts)"

definition extract_doi_from_html ::
  "(string \<Rightarrow> error + node) \<Rightarrow> directory \<Rightarrow> string \<Rightarrow> error + string option" where
  "extract_doi_from_html parse fs file_path =
     bind_err (open_read fs file_path) (\<lambda>file.
     bind_err (parse file) (\<lambda>soup.
       Inr (first_doi (soup_find_all ''script'' (\<lambda>x. True) soup))))"

definition extract_abstract_from_html ::
  "(string \<Rightarrow> error + node) \<Rightarrow> directory \<Rightarrow> string \<Rightarrow> error + string option" where
  "extract_abstract_from_html parse fs file_path =
     bind_err (open_read fs file_path) (\<lambda>file.
     bind_err (parse file) (\<lambda>soup.
       case soup_find ''section'' (attr_is ''id'' ''abstract'') soup of
         None \<Rightarrow> Inr None
       | Some abstract_section \<Rightarrow>
           (case soup_find ''div'' (attr_is ''role'' ''paragraph'') abstract_section of
              None \<Rightarrow> Inr None
            | Some abstract_div \<Rightarrow> Inr (Some (get_text_strip abstract_div)))))"

section \<open>Markup Extractor of the in-memory variant\<close>

record article =
  Title :: "string option"
  Authors :: "string option"
  Publication_date :: "string option"
  DOI :: "string option"
  Abstract :: "string option"

text \<open>In \<open>webScraping2.py\<close> the two loops have no \<open>return\<close> or \<open>break\<close>: every labelled
  div and every matching script overwrites the variable, so the last one stays.\<close>

fun last_published :: "node list \<Rightarrow> string option \<Rightarrow> error + string option" where
  "last_published [] publication_date = Inr publication_date"
| "last_published (d # ds) publication_date =
     (if has_published_label d
      then (case date_of_div d of Inl e \<Rightarrow> Inl e | Inr date \<Rightarrow> last_published ds (Some date))
      else last_published ds publication_date)"

fun last_doi :: "node list \<Rightarrow> string option \<Rightarrow> string option" where
  "last_doi [] doi = doi"
| "last_doi (script # scripts) doi =
     (case script_doi script of
        Some g \<Rightarrow> last_doi scripts (Some g)
      | None \<Rightarrow> last_doi scripts doi)"

definition extract_data_from_html ::
  "(string \<Rightarrow> error + node) \<Rightarrow> string \<Rightarrow> error + article" where
  "extract_data_from_html parse html_content =
     bind_err (parse html_content) (\<lambda>soup.
      let title =
            (case soup_find ''meta'' (attr_is ''name'' ''dc.Title'') soup of
               None \<Rightarrow> None
             | Some meta_tag \<Rightarrow> get_attr meta_tag ''content'');
          author_divs = soup_find_all ''div'' id_is_corresp soup;
          authors =
            (if author_divs \<noteq> []
             then Some (sub_close (sub_open (sub_email
                    (join '' '' (map get_text_strip author_divs)))))
             else None)
      in bind_err
           (case soup_find ''div'' (has_class ''core-history'') soup of
              None \<Rightarrow> Inr None
            | Some core_history_div \<Rightarrow>
                last_published (soup_find_all ''div'' (\<lambda>x. True) core_history_div) None)
           (\<lambda>publication_date.
              let doi = last_doi (soup_find_all ''script'' (\<lambda>x. True) soup) None;
                  abstract =
                    (case soup_find ''section'' (attr_is ''id'' ''abstract'') soup of
                       None \<Rightarrow> None
                     | Some abstract_section \<Rightarrow>
                         (case soup_find ''div'' (attr_is ''role'' ''paragraph'')
                                 abstract_section of
                            None \<Rightarrow> None
                          | Some abstract_div \<Rightarrow> Some (get_text_strip abstract_div)))
              in Inr \<lparr>Title = title, Authors = authors,
                      Publication_date = publication_date, DOI = doi,
                      Abstract = abstract\<rparr>))"

section \<open>Table Exporter\<close>

text \<open>
  \<open>pd.DataFrame(data).to_csv('scraped_data.csv', index=False)\<close>. A record is a dictionary
  of five keys. The columns of the frame are the keys of the dictionaries in the order
  they are first seen; no column list is passed. The written table is a header row of
  the column names and one row per record, a missing value as the empty cell. Quoting of
  cells is left out.
\<close>

definition article_dict :: "article \<Rightarrow> (string \<times> string option) list" where
  "article_dict r =
     [(''Title'', Title r),
      (''Authors With Their Affliations'', Authors r),
      (''Publication_date'', Publication_date r),
      (''DOI'', DOI r),
      (''Abstract'', Abstract r)]"

record table =
  header :: "string list"
  rows :: "string list list"

definition first_seen :: "string list \<Rightarrow> string list" where
  "first_seen ks = rev (remdups (rev ks))"

definition frame_columns :: "(string \<times> string option) list list \<Rightarrow> string list" where
  "frame_columns dicts = first_seen (concat (map (map fst) dicts))"

fun cell :: "string option option \<Rightarrow> string" where
  "cell (Some (Some s)) = s"
| "cell (Some None) = []"
| "cell None = []"

definition to_csv :: "article list \<Rightarrow> table" where
  "to_csv data =
     (let dicts = map article_dict data;
          columns = frame_columns dicts
      in \<lparr>header = columns,
          rows = map (\<lambda>d. map (\<lambda>c. cell (map_of d c)) columns) dicts\<rparr>)"

section \<open>Pipeline Driver, in-memory variant\<close>

text \<open>The loop of \<open>main\<close> in \<open>webScraping2.py\<close>: fetch, extract, append when the title is
  truthy. An error of the renderer or of the extractor ends the run.\<close>

fun scrape_articles ::
  "(string \<Rightarrow> error + string) \<Rightarrow> (string \<Rightarrow> error + node) \<Rightarrow> string list \<Rightarrow> article list
   \<Rightarrow> error + article list" where
  "scrape_articles render parse [] data = Inr data"
| "scrape_articles render parse (href # hrefs) data =
     (case render (base_url @ href) of
        Inl e \<Rightarrow> Inl e
      | Inr html_content \<Rightarrow>
          (case extract_data_from_html parse html_content of
             Inl e \<Rightarrow> Inl e
           | Inr article_data \<Rightarrow>
               scrape_articles render parse hrefs
                 (if truthy (Title article_data) then data @ [article_data] else data)))"

definition main_webScraping2 ::
  "(string \<Rightarrow> error + string) \<Rightarrow> (string \<Rightarrow> error + node) \<Rightarrow> node \<Rightarrow> error + table" where
  "main_webScraping2 render parse main_page =
     bind_err (scrape_articles render parse (extract_links main_page) [])
       (\<lambda>data. Inr (to_csv data))"

section \<open>Pipeline Driver, staging variant\<close>

definition digit_char :: "nat \<Rightarrow> char" where
  "digit_char d = ''0123456789'' ! d"

function str_nat :: "nat \<Rightarrow> string" where
  "str_nat n = (if n < 10 then [digit_char n] else str_nat (n div 10) @ [digit_char (n mod 10)])"
  by pat_completeness auto
termination
  by (relation "measure id") auto

declare str_nat.simps [simp del]

definition page_filename :: "nat \<Rightarrow> string" where
  "page_filename i = ''page_'' @ str_nat i @ ''.html''"

text \<open>First loop of \<open>main\<close> in \<open>webScraping.py\<close> and \<open>webScraping3.py\<close>: fetch each link
  and write it to \<open>page_i.html\<close>, \<open>i\<close> counting from 1.\<close>

fun stage_pages ::
  "(string \<Rightarrow> error + string) \<Rightarrow> nat \<Rightarrow> string list \<Rightarrow> directory \<Rightarrow> error + directory" where
  "stage_pages render i [] fs = Inr fs"
| "stage_pages render i (href # hrefs) fs =
     (case process_page render (base_url @ href) of
        Inl e \<Rightarrow> Inl e
      | Inr html_content \<Rightarrow>
          (case open_write fs (page_filename i) html_content of
             Inl e \<Rightarrow> Inl e
           | Inr fs' \<Rightarrow> stage_pages render (Suc i) hrefs fs'))"

text \<open>The five extractions of one file, in the order of the source; the first error
  ends the run.\<close>

definition extract_file :: "(string \<Rightarrow> error + node) \<Rightarrow> directory \<Rightarrow> string \<Rightarrow> error + article" where
  "extract_file parse fs file_path =
     bind_err (extract_title_from_html parse fs file_path) (\<lambda>title.
     bind_err (extract_authors_from_html parse fs file_path) (\<lambda>authors.
     bind_err (extract_publication_date_from_html parse fs file_path) (\<lambda>publication_date.
     bind_err (extract_doi_from_html parse fs file_path) (\<lambda>doi.
     bind_err (extract_abstract_from_html parse fs file_path) (\<lambda>abstract.
       Inr \<lparr>Title = title, Authors = authors, Publication_date = publication_date,
            DOI = doi, Abstract = abstract\<rparr>)))))"

text \<open>Second loop: over the names that \<open>os.listdir\<close> returned, for those that end with
  \<open>.html\<close>: extract, append when the title is truthy, remove the file.\<close>

fun extract_staged ::
  "(string \<Rightarrow> error + node) \<Rightarrow> string list \<Rightarrow> directory \<Rightarrow> article list
   \<Rightarrow> error + directory \<times> article list" where
  "extract_staged parse [] fs data = Inr (fs, data)"
| "extract_staged parse (filename # filenames) fs data =
     (if suffix ''.html'' filename then
        (case extract_file parse fs (os_path_join html_directory filename) of
           Inl e \<Rightarrow> Inl e
         | Inr r \<Rightarrow>
             (case os_remove fs (os_path_join html_directory filename) of
                Inl e \<Rightarrow> Inl e
              | Inr fs' \<Rightarrow>
                  extract_staged parse filenames fs'
                    (if truthy (Title r) then data @ [r] else data)))
      else extract_staged parse filenames fs data)"

text \<open>The run: the directory it leaves behind and the table it writes to
  \<open>scraped_data.csv\<close>.\<close>

definition main_webScraping ::
  "(string \<Rightarrow> error + string) \<Rightarrow> (string \<Rightarrow> error + node) \<Rightarrow> (directory \<Rightarrow> string list) \<Rightarrow> node
   \<Rightarrow> directory \<Rightarrow> error + directory \<times> table" where
  "main_webScraping render parse listdir main_page fs =
     bind_err (stage_pages render 1 (extract_links main_page) fs) (\<lambda>fs1.
     bind_err (extract_staged parse (listdir fs1) fs1 []) (\<lambda>(fs2, data).
       Inr (fs2, to_csv data)))"

section \<open>Predicates used in the statements\<close>

text \<open>A string holds the token \<open>email:\<close> followed by a character that is not
  whitespace.\<close>

fun has_email_token :: "string \<Rightarrow> bool" where
  "has_email_token [] = False"
| "has_email_token (c # cs) =
     ((prefix ''email:'' (c # cs) \<and> (case drop 6 (c # cs) of [] \<Rightarrow> False | d # _ \<Rightarrow> \<not> is_space d))
      \<or> has_email_token cs)"

text \<open>The elements the extractors look at: the author blocks, the divs of the
  history block and those of them that carry the label, and the scripts in which the
  DOI pattern is found.\<close>

definition author_divs :: "node \<Rightarrow> node list" where
  "author_divs soup = soup_find_all ''div'' id_is_corresp soup"

definition history_divs :: "node \<Rightarrow> node list" where
  "history_divs soup =
     (case soup_find ''div'' (has_class ''core-history'') soup of
        None \<Rightarrow> []
      | Some core_history_div \<Rightarrow> soup_find_all ''div'' (\<lambda>x. True) core_history_div)"

definition labelled_divs :: "node \<Rightarrow> node list" where
  "labelled_divs soup = filter has_published_label (history_divs soup)"

definition doi_scripts :: "node \<Rightarrow> node list" where
  "doi_scripts soup =
     filter (\<lambda>script. script_doi script \<noteq> None) (soup_find_all ''script'' (\<lambda>x. True) soup)"

text \<open>The column names of a frame built from records, and the row of one record.\<close>

definition column_names :: "string list" where
  "column_names =
     [''Title'', ''Authors With Their Affliations'', ''Publication_date'', ''DOI'', ''Abstract'']"

definition article_row :: "article \<Rightarrow> string list" where
  "article_row r =
     [cell (Some (Title r)), cell (Some (Authors r)), cell (Some (Publication_date r)),
      cell (Some (DOI r)), cell (Some (Abstract r))]"

text \<open>The record the in-memory driver obtains for a link, and whether it keeps it; the
  record the staging driver keeps for a file name, and the records it keeps for a listing
  of names, taken in the order of the listing.\<close>

definition page_record ::
  "(string \<Rightarrow> error + string) \<Rightarrow> (string \<Rightarrow> error + node) \<Rightarrow> string \<Rightarrow> error + article" where
  "page_record render parse href =
     bind_err (render (base_url @ href)) (extract_data_from_html parse)"

definition link_retained ::
  "(string \<Rightarrow> error + string) \<Rightarrow> (string \<Rightarrow> error + node) \<Rightarrow> string \<Rightarrow> bool" where
  "link_retained render parse href =
     (case page_record render parse href of Inl e \<Rightarrow> False | Inr r \<Rightarrow> truthy (Title r))"

definition file_retained :: "(string \<Rightarrow> error + node) \<Rightarrow> directory \<Rightarrow> string \<Rightarrow> article option" where
  "file_retained parse fs filename =
     (case extract_file parse fs (os_path_join html_directory filename) of
        Inl e \<Rightarrow> None
      | Inr r \<Rightarrow> if truthy (Title r) then Some r else None)"

definition records_of :: "(string \<Rightarrow> error + node) \<Rightarrow> directory \<Rightarrow> string list \<Rightarrow> article list" where
  "records_of parse fs filenames =
     List.map_filter (file_retained parse fs) (filter (suffix ''.html'') filenames)"

section \<open>Example documents\<close>

text \<open>Parsed pages used as concrete inputs below. Where a parser is needed for them, it
  is the function that accepts the text and returns the page.\<close>

definition full_page :: node where
  "full_page =
     Tag ''[document]'' []
       [Tag ''html'' []
          [Tag ''head'' []
             [Tag ''meta'' [(''name'', ''dc.Title''), (''content'', ''On Scraping'')] [],
              Tag ''script'' []
                [OtherString ''var journalAdParams = {doi: '10.1177/00222429', other: 1};'']],
           Tag ''body'' []
             [Tag ''div'' [(''id'', ''corresp1-1'')]
                [NavigableString ''Jane Doe (Dept of X) '', Tag ''b'' [] [NavigableString ''email:''],
                 NavigableString '' jane@x.com''],
              Tag ''div'' [(''class'', ''core-history'')]
                [Tag ''div'' []
                   [Tag ''b'' [(''class'', ''core-label'')]
                      [NavigableString ''Article first published online: ''],
                    NavigableString ''May 5, 2024'']],
              Tag ''section'' [(''id'', ''abstract'')]
                [Tag ''div'' [(''role'', ''paragraph'')] [NavigableString '' We scrape. '']]]]]"

definition doi_page :: node where
  "doi_page =
     Tag ''[document]'' []
       [Tag ''html'' []
          [Tag ''head'' []
             [Tag ''script'' []
                [OtherString
                   ''var journalAdParams = {doi: '10.1177/0025149241234567', other: 1};'']]]]"

definition history_without_colon_html :: string where
  "history_without_colon_html =
     ''<div class='core-history'><div><b class='core-label'>Article first published online</b> 5 May 2024</div></div>''"

definition history_without_colon :: node where
  "history_without_colon =
     Tag ''[document]'' []
       [Tag ''div'' [(''class'', ''core-history'')]
          [Tag ''div'' []
             [Tag ''b'' [(''class'', ''core-label'')]
                [NavigableString ''Article first published online''],
              NavigableString '' 5 May 2024'']]]"

definition two_dates_two_dois :: node where
  "two_dates_two_dois =
     Tag ''[document]'' []
       [Tag ''script'' [] [OtherString ''var journalAdParams = {doi: '10.1/first'};''],
        Tag ''script'' [] [OtherString ''var journalAdParams = {doi: '10.1/second'};''],
        Tag ''div'' [(''class'', ''core-history'')]
          [Tag ''div'' []
             [Tag ''b'' [(''class'', ''core-label'')]
                [NavigableString ''Article first published online:''],
              NavigableString '' May 5, 2024''],
           Tag ''div'' []
             [Tag ''b'' [(''class'', ''core-label'')]
                [NavigableString ''Article first published online:''],
              NavigableString '' June 6, 2024'']]]"

definition two_labels :: node where
  "two_labels =
     Tag ''[document]'' []
       [Tag ''meta'' [(''name'', ''dc.Title''), (''content'', ''T'')] [],
        Tag ''div'' [(''class'', ''core-history'')]
          [Tag ''div'' []
             [Tag ''b'' [(''class'', ''core-label'')]
                [NavigableString ''Article first published online:''],
              NavigableString '' May 5, 2024''],
           Tag ''div'' []
             [Tag ''b'' [(''class'', ''core-label'')]
                [NavigableString ''Article first published online''],
              NavigableString '' June 6, 2024'']]]"

definition two_authors :: node where
  "two_authors =
     Tag ''[document]'' []
       [Tag ''div'' [(''id'', ''corresp1-1'')] [NavigableString ''Jane Doe (Dept of X)''],
        Tag ''div'' [(''id'', ''corresp1-2'')] [NavigableString ''John Roe'']]"

text \<open>A listing page with three article links and one other link, a listing page
  without article links, and a site of three article pages of which the page of the
  second link has no title tag.\<close>

definition toc_page :: node where
  "toc_page =
     Tag ''[document]'' []
       [Tag ''a'' [(''href'', ''/doi/abs/a'')] [NavigableString ''First''],
        Tag ''a'' [(''href'', ''/toc/JMX/current'')] [NavigableString ''Current issue''],
        Tag ''p'' []
          [Tag ''a'' [(''href'', ''/doi/abs/c'')] [NavigableString ''Second''],
           Tag ''a'' [(''href'', ''/doi/abs/b'')] [NavigableString ''Third'']]]"

definition empty_toc :: node where
  "empty_toc =
     Tag ''[document]'' []
       [Tag ''a'' [(''href'', ''/toc/JMX/current'')] [NavigableString ''Current issue'']]"

definition titled_page :: "string \<Rightarrow> node" where
  "titled_page t =
     Tag ''[document]'' [] [Tag ''meta'' [(''name'', ''dc.Title''), (''content'', t)] []]"

definition untitled_page :: node where
  "untitled_page = Tag ''[document]'' [] [Tag ''p'' [] [NavigableString ''no metadata'']]"

definition site_render :: "string \<Rightarrow> error + string" where
  "site_render url =
     (if url = ''https://journals.sagepub.com/doi/abs/a'' then Inr ''A''
      else if url = ''https://journals.sagepub.com/doi/abs/b'' then Inr ''B''
      else if url = ''https://journals.sagepub.com/doi/abs/c'' then Inr ''C''
      else Inl FetchError)"

definition site_parse :: "string \<Rightarrow> error + node" where
  "site_parse html =
     (if html = ''A'' then Inr (titled_page ''Title A'')
      else if html = ''B'' then Inr (titled_page ''Title B'')
      else if html = ''Old'' then Inr (titled_page ''Old title'')
      else Inr untitled_page)"


section \<open>Authors cleaning\<close>

lemma has_email_token_append: "has_email_token t \<Longrightarrow> has_email_token (pre @ t)"
  by (induction pre) auto

text \<open>\<open>has_email_token\<close> says that the string has the form
  \<open>pre @ email: @ d # post\<close> with \<open>d\<close> not whitespace.\<close>

lemma has_email_token_iff:
  "has_email_token s \<longleftrightarrow> (\<exists>pre d post. s = pre @ ''email:'' @ d # post \<and> \<not> is_space d)"
proof
  show "has_email_token s \<Longrightarrow> \<exists>pre d post. s = pre @ ''email:'' @ d # post \<and> \<not> is_space d"
  proof (induction s)
    case Nil
    then show ?case by simp
  next
    case (Cons c cs)
    show ?case
    proof (cases "has_email_token cs")
      case True
      with Cons.IH obtain pre d post where "cs = pre @ ''email:'' @ d # post" "\<not> is_space d"
        by blast
      then have "c # cs = (c # pre) @ ''email:'' @ d # post \<and> \<not> is_space d" by simp
      then show ?thesis by blast
    next
      case False
      with Cons.prems have p: "prefix ''email:'' (c # cs)"
        and d: "(case drop 6 (c # cs) of [] \<Rightarrow> False | d # _ \<Rightarrow> \<not> is_space d)"
        by auto
      from p obtain t where t: "c # cs = ''email:'' @ t" by (auto simp: prefix_def)
      then have "drop 6 (c # cs) = t" by simp
      with d obtain x post where "t = x # post" "\<not> is_space x"
        by (auto split: list.splits)
      with t have "c # cs = [] @ ''email:'' @ x # post \<and> \<not> is_space x" by simp
      then show ?thesis by blast
    qed
  qed
next
  assume "\<exists>pre d post. s = pre @ ''email:'' @ d # post \<and> \<not> is_space d"
  then obtain pre d post where s: "s = pre @ ''email:'' @ d # post" and d: "\<not> is_space d"
    by blast
  from d have "has_email_token (''email:'' @ d # post)" by simp
  then show "has_email_token s" unfolding s by (rule has_email_token_append)
qed

lemma match_email_token: "match_email s = Some r \<Longrightarrow> has_email_token s"
proof -
  assume a: "match_email s = Some r"
  let ?d = "dropWhile is_space s"
  from a have p: "prefix ''email:'' ?d" and t: "takeWhile non_space (drop 6 ?d) \<noteq> []"
    by (auto simp: match_email_def Let_def split: if_splits)
  from p obtain u where u: "?d = ''email:'' @ u" by (auto simp: prefix_def)
  then have du: "drop 6 ?d = u" by simp
  with t obtain x post where x: "u = x # post" "\<not> is_space x"
    by (cases u) (auto simp: non_space_def split: if_splits)
  with u have "has_email_token ?d" by simp
  then have "has_email_token (takeWhile is_space s @ ?d)" by (rule has_email_token_append)
  then show ?thesis by simp
qed

lemma sub_email_clean: "\<not> has_email_token s \<Longrightarrow> sub_email s = s"
proof (induction s rule: sub_email.induct)
  case 1
  then show ?case by simp
next
  case (2 c cs)
  have none: "match_email (c # cs) = None"
  proof (cases "match_email (c # cs)")
    case None
    then show ?thesis .
  next
    case (Some r)
    then have "has_email_token (c # cs)" by (rule match_email_token)
    with "2.prems" show ?thesis by contradiction
  qed
  from "2.prems" have "\<not> has_email_token cs" by simp
  with "2.IH" none have "sub_email cs = cs" by blast
  with none show ?case by simp
qed

lemma match_open_paren: "match_open s = Some r \<Longrightarrow> CHR ''('' \<in> set s"
proof -
  assume "match_open s = Some r"
  then have "dropWhile is_space s = CHR ''('' # r"
    by (auto simp: match_open_def split: list.splits if_splits)
  then have "CHR ''('' \<in> set (dropWhile is_space s)" by simp
  then show ?thesis by (rule set_dropWhileD)
qed

lemma sub_open_clean: "CHR ''('' \<notin> set s \<Longrightarrow> sub_open s = s"
proof (induction s rule: sub_open.induct)
  case 1
  then show ?case by simp
next
  case (2 c cs)
  have none: "match_open (c # cs) = None"
  proof (cases "match_open (c # cs)")
    case None
    then show ?thesis .
  next
    case (Some r)
    then have "CHR ''('' \<in> set (c # cs)" by (rule match_open_paren)
    with "2.prems" show ?thesis by contradiction
  qed
  from "2.prems" have "CHR ''('' \<notin> set cs" by simp
  with "2.IH" none have "sub_open cs = cs" by blast
  with none show ?case by simp
qed

lemma sub_close_clean: "CHR '')'' \<notin> set s \<Longrightarrow> sub_close s = s"
proof (induction s rule: sub_close.induct)
  case 1
  then show ?case by simp
next
  case (2 c cs)
  from "2.prems" have none: "match_close (c # cs) = None"
    by (auto simp: match_close_def)
  from "2.prems" have "CHR '')'' \<notin> set cs" by simp
  with "2.IH" none have "sub_close cs = cs" by blast
  with none show ?case by simp
qed

lemma sub_close_no_close: "CHR '')'' \<notin> set (sub_close s)"
proof (induction s rule: sub_close.induct)
  case 1
  then show ?case by simp
next
  case (2 c cs)
  then show ?case
    by (cases "match_close (c # cs)") (auto simp: match_close_def split: if_splits)
qed

lemma match_close_set: "match_close s = Some r \<Longrightarrow> set r \<subseteq> set s"
  by (auto simp: match_close_def split: list.splits if_splits dest: set_dropWhileD)

lemma sub_close_set: "set (sub_close s) \<subseteq> insert CHR ''.'' (set s)"
proof (induction s rule: sub_close.induct)
  case 1
  then show ?case by simp
next
  case (2 c cs)
  show ?case
  proof (cases "match_close (c # cs)")
    case None
    with "2.IH"(1) have "set (sub_close cs) \<subseteq> insert CHR ''.'' (set cs)" by blast
    with None show ?thesis by auto
  next
    case (Some rest)
    with "2.IH"(2) have "set (sub_close rest) \<subseteq> insert CHR ''.'' (set rest)" by blast
    with Some match_close_set [OF Some] show ?thesis by auto
  qed
qed

lemma sub_open_no_open: "CHR ''('' \<notin> set (sub_open s)"
proof (induction s rule: sub_open.induct)
  case 1
  then show ?case by simp
next
  case (2 c cs)
  show ?case
  proof (cases "match_open (c # cs)")
    case None
    then have "c \<noteq> CHR ''(''"
      by (auto simp: match_open_def is_space_def split: list.splits if_splits)
    with "2.IH"(1) None show ?thesis by simp
  next
    case (Some rest)
    with "2.IH"(2) show ?thesis by simp
  qed
qed

text \<open>
  C8 (amended). On a string with no \<open>email:\<close> followed by a character that is not
  whitespace, no opening and no closing parenthesis, the three substitutions in sequence
  return the string unchanged. On any string their result holds no parenthesis. The
  result can still hold \<open>email:\<close> followed by a character that is not whitespace, so
  cleaning a cleaned text can change it again.
\<close>

theorem clean_authors_identity_on_clean:
  "(\<not> has_email_token s \<and> CHR ''('' \<notin> set s \<and> CHR '')'' \<notin> set s \<longrightarrow> clean_authors s = s)
   \<and> CHR ''('' \<notin> set (clean_authors s) \<and> CHR '')'' \<notin> set (clean_authors s)"
proof (intro conjI impI)
  assume a: "\<not> has_email_token s \<and> CHR ''('' \<notin> set s \<and> CHR '')'' \<notin> set s"
  then show "clean_authors s = s"
    by (simp add: clean_authors_def sub_email_clean sub_open_clean sub_close_clean)
next
  have "set (clean_authors s) \<subseteq> insert CHR ''.'' (set (sub_open (sub_email s)))"
    unfolding clean_authors_def by (rule sub_close_set)
  then show "CHR ''('' \<notin> set (clean_authors s)"
    using sub_open_no_open [of "sub_email s"] by auto
next
  show "CHR '')'' \<notin> set (clean_authors s)"
    unfolding clean_authors_def by (rule sub_close_no_close)
qed

theorem clean_authors_identity_on_clean_witness:
  "\<not> has_email_token ''Jane Doe. Dept of Y'' \<and> clean_authors ''Jane Doe. Dept of Y'' = ''Jane Doe. Dept of Y''"
proof -
  have h: "\<not> has_email_token ''Jane Doe. Dept of Y'' \<and> CHR ''('' \<notin> set ''Jane Doe. Dept of Y''
           \<and> CHR '')'' \<notin> set ''Jane Doe. Dept of Y''"
    by simp
  from clean_authors_identity_on_clean [of "''Jane Doe. Dept of Y''"] h show ?thesis
    by blast
qed

text \<open>Cleaning \<open>email: (x\<close> gives \<open>email:.x\<close>, and cleaning that gives a single
  period: the cleaning is not idempotent on its own outputs.\<close>

theorem clean_authors_not_idempotent:
  "clean_authors (clean_authors ''email: (x'') \<noteq> clean_authors ''email: (x''"
  by (simp add: clean_authors_def match_email_def match_open_def match_close_def
      is_space_def non_space_def)

text \<open>
  C3 (amended). For the authors text \<open>Jane Doe (email: jane@x.com) Dept of Y\<close> the three
  substitutions in order give \<open>Jane Doe.email: jane@x.com.Dept of Y\<close>: the email pattern
  needs a character that is not whitespace right after the colon and does not match
  here; the opening parenthesis with the space before it and the closing parenthesis
  with the space after it each become a period.
\<close>

theorem jane_doe_cleaned:
  "clean_authors ''Jane Doe (email: jane@x.com) Dept of Y'' = ''Jane Doe.email: jane@x.com.Dept of Y''"
  by (simp add: clean_authors_def match_email_def match_open_def match_close_def
      is_space_def non_space_def)

text \<open>The result is not the string \<open>Jane Doe. . Dept of Y.\<close>\<close>

theorem jane_doe_not_as_claimed:
  "clean_authors ''Jane Doe (email: jane@x.com) Dept of Y'' \<noteq> ''Jane Doe. . Dept of Y.''"
  by (simp add: clean_authors_def match_email_def match_open_def match_close_def
      is_space_def non_space_def)

section \<open>The two extractor variants\<close>

lemma script_doi_example:
  "string_of script = Some ''var journalAdParams = {doi: '10.1177/0025149241234567', other: 1};''
   \<Longrightarrow> script_doi script = Some ''10.1177/0025149241234567''"
  by (simp add: script_doi_def match_doi_def quote_def is_space_def)

text \<open>
  C7. For a page that parses and whose one script block has the text
  \<open>var journalAdParams = {doi: '10.1177/0025149241234567', other: 1};\<close> the DOI
  extraction of the staging variant returns \<open>10.1177/0025149241234567\<close>, and so does the
  loop over the scripts in the in-memory variant, whose result is the DOI field of every
  record that variant returns for the page.
\<close>

theorem doi_of_journal_script:
  assumes parsed: "parse html = Inr soup"
    and scripts: "soup_find_all ''script'' (\<lambda>x. True) soup = [script]"
    and str: "string_of script =
                 Some ''var journalAdParams = {doi: '10.1177/0025149241234567', other: 1};''"
  shows "(open_read fs file_path = Inr html \<longrightarrow>
            extract_doi_from_html parse fs file_path = Inr (Some ''10.1177/0025149241234567''))
         \<and> last_doi (soup_find_all ''script'' (\<lambda>x. True) soup) None
             = Some ''10.1177/0025149241234567''
         \<and> (\<forall>r. extract_data_from_html parse html = Inr r \<longrightarrow>
                DOI r = Some ''10.1177/0025149241234567'')"
proof -
  have d: "script_doi script = Some ''10.1177/0025149241234567''"
    using str by (rule script_doi_example)
  have v1: "open_read fs file_path = Inr html \<Longrightarrow>
        extract_doi_from_html parse fs file_path = Inr (Some ''10.1177/0025149241234567'')"
    by (simp add: extract_doi_from_html_def bind_err_def parsed scripts d)
  have v2: "\<And>r. extract_data_from_html parse html = Inr r \<Longrightarrow>
        DOI r = Some ''10.1177/0025149241234567''"
    by (auto simp: extract_data_from_html_def bind_err_def Let_def parsed scripts d
        split: sum.splits)
  have l: "last_doi (soup_find_all ''script'' (\<lambda>x. True) soup) None
             = Some ''10.1177/0025149241234567''"
    by (simp add: scripts d)
  from v1 l v2 show ?thesis by blast
qed

lemma doi_page_scripts:
  "soup_find_all ''script'' (\<lambda>x. True) doi_page =
     [Tag ''script'' [] [OtherString ''var journalAdParams = {doi: '10.1177/0025149241234567', other: 1};'']]"
  by (simp add: soup_find_all_def doi_page_def)

theorem doi_of_journal_script_witness:
  "extract_doi_from_html (\<lambda>html. Inr doi_page) [(''page_1.html'', File ''<html>'')] ''./page_1.html''
     = Inr (Some ''10.1177/0025149241234567'')
   \<and> map_sum id DOI (extract_data_from_html (\<lambda>html. Inr doi_page) ''<html>'')
     = Inr (Some ''10.1177/0025149241234567'')"
proof -
  have o: "open_read [(''page_1.html'', File ''<html>'')] ''./page_1.html'' = Inr ''<html>''"
    by (simp add: open_read_def resolve_def)
  have s: "string_of (Tag ''script'' [] [OtherString ''var journalAdParams = {doi: '10.1177/0025149241234567', other: 1};''])
             = Some ''var journalAdParams = {doi: '10.1177/0025149241234567', other: 1};''"
    by simp
  obtain r where r: "extract_data_from_html (\<lambda>html. Inr doi_page) ''<html>'' = Inr r"
    by (simp add: extract_data_from_html_def doi_page_def soup_find_def soup_find_all_def
        bind_err_def Let_def has_class_def attr_is_def)
  have p: "(\<lambda>html. Inr doi_page :: error + node) ''<html>'' = Inr doi_page"
    by simp
  from doi_of_journal_script [OF p doi_page_scripts s] o r
  show ?thesis by simp
qed

text \<open>
  C1. The claim: no sub-extraction raises, and publication-date extraction returns null
  when a child div of the history block carries the label but its text has no colon.
  On such a page the index after \<open>split\<close> fails in both variants: the staging
  extractor and the in-memory extractor end with \<open>IndexError\<close>.
\<close>

theorem publication_date_raises_without_colon:
  "extract_publication_date_from_html (\<lambda>html. Inr history_without_colon)
     [(''page_1.html'', File history_without_colon_html)] ''./page_1.html'' = Inl IndexError
   \<and> extract_data_from_html (\<lambda>html. Inr history_without_colon) history_without_colon_html
     = Inl IndexError"
  by code_simp

text \<open>Two author blocks, the first ending in a closing parenthesis: the staging variant
  cleans each block and joins, the in-memory variant joins and cleans, and the space
  between the blocks is kept by the first and removed by the second.\<close>

theorem variants_differ_on_authors:
  "extract_authors_from_html (\<lambda>html. Inr two_authors) [(''page_1.html'', File ''<div>'')] ''./page_1.html''
     = Inr (Some ''Jane Doe.Dept of X. John Roe'')
   \<and> map_sum id Authors (extract_data_from_html (\<lambda>html. Inr two_authors) ''<div>'')
     = Inr (Some ''Jane Doe.Dept of X.John Roe'')"
  by code_simp


text \<open>Two labelled divs and two scripts with a DOI: the staging variant returns the
  first date and the first DOI, the in-memory variant the last of each.\<close>

lemma variants_differ_on_date_and_doi:
  "extract_publication_date_from_html (\<lambda>html. Inr two_dates_two_dois)
       [(''page_1.html'', File ''<script>'')] ''./page_1.html'' = Inr (Some ''May 5, 2024'')
   \<and> extract_doi_from_html (\<lambda>html. Inr two_dates_two_dois)
       [(''page_1.html'', File ''<script>'')] ''./page_1.html'' = Inr (Some ''10.1/first'')
   \<and> map_sum id Publication_date (extract_data_from_html (\<lambda>html. Inr two_dates_two_dois) ''<script>'')
       = Inr (Some ''June 6, 2024'')
   \<and> map_sum id DOI (extract_data_from_html (\<lambda>html. Inr two_dates_two_dois) ''<script>'')
       = Inr (Some ''10.1/second'')"
  by code_simp

lemma first_published_filter:
  "first_published ds =
     (case filter has_published_label ds of
        [] \<Rightarrow> Inr None
      | d # _ \<Rightarrow> map_sum id Some (date_of_div d))"
  by (induction ds) (auto split: sum.splits)

lemma last_published_filter:
  "length (filter has_published_label ds) \<le> 1 \<Longrightarrow>
   last_published ds acc =
     (case filter has_published_label ds of
        [] \<Rightarrow> Inr acc
      | d # _ \<Rightarrow> map_sum id Some (date_of_div d))"
proof (induction ds arbitrary: acc)
  case Nil
  then show ?case by simp
next
  case (Cons d ds)
  show ?case
  proof (cases "has_published_label d")
    case True
    with Cons.prems have e: "filter has_published_label ds = []" by simp
    then have "\<And>a. last_published ds a = Inr a"
      using Cons.IH by simp
    with True e show ?thesis by (simp split: sum.splits)
  next
    case False
    with Cons show ?thesis by simp
  qed
qed

lemma first_doi_filter:
  "first_doi ss =
     (case filter (\<lambda>script. script_doi script \<noteq> None) ss of
        [] \<Rightarrow> None
      | script # _ \<Rightarrow> script_doi script)"
  by (induction ss) (auto split: option.splits)

lemma last_doi_filter:
  "length (filter (\<lambda>script. script_doi script \<noteq> None) ss) \<le> 1 \<Longrightarrow>
   last_doi ss acc =
     (case filter (\<lambda>script. script_doi script \<noteq> None) ss of
        [] \<Rightarrow> acc
      | script # _ \<Rightarrow> script_doi script)"
proof (induction ss arbitrary: acc)
  case Nil
  then show ?case by simp
next
  case (Cons s ss)
  show ?case
  proof (cases "script_doi s")
    case None
    with Cons show ?thesis by simp
  next
    case (Some g)
    with Cons.prems have e: "filter (\<lambda>script. script_doi script \<noteq> None) ss = []" by simp
    then have "\<And>a. last_doi ss a = a"
      using Cons.IH by simp
    with Some e show ?thesis by simp
  qed
qed

lemma bind_err_accepts: "bind_err (Inr x) f = f x"
  by (simp add: bind_err_def)

lemma staged_title:
  "open_read fs file_path = Inr html \<Longrightarrow> parse html = Inr soup \<Longrightarrow>
   extract_title_from_html parse fs file_path =
     Inr (case soup_find ''meta'' (attr_is ''name'' ''dc.Title'') soup of
            None \<Rightarrow> None
          | Some meta_tag \<Rightarrow> get_attr meta_tag ''content'')"
  by (simp add: extract_title_from_html_def bind_err_def split: option.splits)

lemma staged_authors:
  "open_read fs file_path = Inr html \<Longrightarrow> parse html = Inr soup \<Longrightarrow>
   extract_authors_from_html parse fs file_path =
     Inr (if author_divs soup = [] then None
          else Some (join '' '' (map (\<lambda>d. clean_authors (get_text_strip d))
                                   (author_divs soup))))"
  by (simp add: extract_authors_from_html_def bind_err_def Let_def author_divs_def
      clean_authors_def comp_def)

lemma staged_date:
  "open_read fs file_path = Inr html \<Longrightarrow> parse html = Inr soup \<Longrightarrow>
   extract_publication_date_from_html parse fs file_path = first_published (history_divs soup)"
  by (simp add: extract_publication_date_from_html_def bind_err_def history_divs_def
      split: option.splits)

lemma staged_doi:
  "open_read fs file_path = Inr html \<Longrightarrow> parse html = Inr soup \<Longrightarrow>
   extract_doi_from_html parse fs file_path =
     Inr (first_doi (soup_find_all ''script'' (\<lambda>x. True) soup))"
  by (simp add: extract_doi_from_html_def bind_err_def)

lemma staged_abstract:
  "open_read fs file_path = Inr html \<Longrightarrow> parse html = Inr soup \<Longrightarrow>
   extract_abstract_from_html parse fs file_path =
     Inr (case soup_find ''section'' (attr_is ''id'' ''abstract'') soup of
            None \<Rightarrow> None
          | Some abstract_section \<Rightarrow>
              (case soup_find ''div'' (attr_is ''role'' ''paragraph'') abstract_section of
                 None \<Rightarrow> None
               | Some abstract_div \<Rightarrow> Some (get_text_strip abstract_div)))"
  by (simp add: extract_abstract_from_html_def bind_err_def split: option.splits)

lemma staged_rejected:
  "open_read fs file_path = Inr html \<Longrightarrow> parse html = Inl e \<Longrightarrow>
   extract_file parse fs file_path = Inl e"
  by (simp add: extract_file_def extract_title_from_html_def bind_err_def)

lemma in_memory_rejected:
  "parse html = Inl e \<Longrightarrow> extract_data_from_html parse html = Inl e"
  by (simp add: extract_data_from_html_def bind_err_def)

lemma in_memory_record:
  "parse html = Inr soup \<Longrightarrow>
   extract_data_from_html parse html =
     bind_err (last_published (history_divs soup) None)
       (\<lambda>publication_date.
          Inr \<lparr>Title = (case soup_find ''meta'' (attr_is ''name'' ''dc.Title'') soup of
                          None \<Rightarrow> None
                        | Some meta_tag \<Rightarrow> get_attr meta_tag ''content''),
               Authors = (if author_divs soup = [] then None
                          else Some (clean_authors (join '' ''
                                 (map get_text_strip (author_divs soup))))),
               Publication_date = publication_date,
               DOI = last_doi (soup_find_all ''script'' (\<lambda>x. True) soup) None,
               Abstract =
                 (case soup_find ''section'' (attr_is ''id'' ''abstract'') soup of
                    None \<Rightarrow> None
                  | Some abstract_section \<Rightarrow>
                      (case soup_find ''div'' (attr_is ''role'' ''paragraph'')
                              abstract_section of
                         None \<Rightarrow> None
                       | Some abstract_div \<Rightarrow> Some (get_text_strip abstract_div)))\<rparr>)"
  by (simp add: extract_data_from_html_def Let_def history_divs_def author_divs_def
      clean_authors_def bind_err_accepts split: option.splits)

lemma published_agree:
  "length (filter has_published_label ds) \<le> 1 \<Longrightarrow> last_published ds None = first_published ds"
  by (simp add: first_published_filter last_published_filter)

lemma doi_agree:
  "length (filter (\<lambda>script. script_doi script \<noteq> None) ss) \<le> 1 \<Longrightarrow>
   last_doi ss None = first_doi ss"
  by (simp add: first_doi_filter last_doi_filter)

lemma authors_agree:
  "length ds \<le> 1 \<Longrightarrow> ds \<noteq> [] \<Longrightarrow>
   join '' '' (map (\<lambda>d. clean_authors (get_text_strip d)) ds)
     = clean_authors (join '' '' (map get_text_strip ds))"
  by (cases ds) auto

lemma last_doi_last:
  "last_doi ss acc =
     (case filter (\<lambda>script. script_doi script \<noteq> None) ss of
        [] \<Rightarrow> acc
      | script # rest \<Rightarrow> script_doi (last (script # rest)))"
proof (induction ss arbitrary: acc)
  case Nil
  then show ?case by simp
next
  case (Cons s ss)
  show ?case
  proof (cases "script_doi s")
    case None
    with Cons show ?thesis by simp
  next
    case (Some g)
    with Cons [of "Some g"] show ?thesis
      by (cases "filter (\<lambda>script. script_doi script \<noteq> None) ss") simp_all
  qed
qed

lemma last_published_last:
  "last_published ds acc = Inr pd \<Longrightarrow>
   (case filter has_published_label ds of
      [] \<Rightarrow> Inr acc
    | d # rest \<Rightarrow> map_sum id Some (date_of_div (last (d # rest)))) = Inr pd"
proof (induction ds arbitrary: acc)
  case Nil
  then show ?case by simp
next
  case (Cons d ds)
  show ?case
  proof (cases "has_published_label d")
    case False
    with Cons show ?thesis by simp
  next
    case True
    with Cons.prems obtain x where x: "date_of_div d = Inr x"
      by (cases "date_of_div d") auto
    with True Cons.prems have "last_published ds (Some x) = Inr pd" by simp
    from Cons.IH [OF this] True x show ?thesis
      by (cases "filter has_published_label ds") simp_all
  qed
qed

lemma last_published_first:
  "last_published ds acc = Inr pd \<Longrightarrow> \<exists>x. first_published ds = Inr x"
proof (induction ds arbitrary: acc)
  case Nil
  then show ?case by simp
next
  case (Cons d ds)
  show ?case
  proof (cases "has_published_label d")
    case False
    with Cons show ?thesis by simp
  next
    case True
    with Cons.prems obtain x where "date_of_div d = Inr x"
      by (cases "date_of_div d") auto
    with True show ?thesis by simp
  qed
qed

lemma universal_newlines_plain: "CHR 0x0D \<notin> set s \<Longrightarrow> universal_newlines s = s"
  by (induction s rule: universal_newlines.induct) auto

text \<open>A page with a title and two labelled divs, the second without a colon: the staging
  variant returns at the first div and has a record, the in-memory variant goes on to
  the second div and raises.\<close>

lemma variants_differ_on_error:
  "extract_file (\<lambda>html. Inr two_labels) [(''page_1.html'', File ''<meta>'')] ''./page_1.html''
     = Inr \<lparr>Title = Some ''T'', Authors = None, Publication_date = Some ''May 5, 2024'',
            DOI = None, Abstract = None\<rparr>
   \<and> extract_data_from_html (\<lambda>html. Inr two_labels) ''<meta>'' = Inl IndexError"
  by code_simp

text \<open>
  C2 (amended). The staging variant parses the staged text as it is read back, with
  \<open>CR LF\<close> and \<open>CR\<close> turned into \<open>LF\<close>; for a text without \<open>CR\<close> that is the text itself.
  On that text: whenever the in-memory variant returns a record, the staging variant
  returns one with the same title and the same abstract. The staging variant applies the
  three substitutions to the text of each author block and joins the results with a
  single space, takes the date from the first labelled div of the history block and the
  DOI from the first script in which the pattern is found; the in-memory variant joins
  the texts and applies the substitutions to the joined string, and a record it returns
  has the date and the DOI of the last such div and script. When at most one author
  block, at most one labelled div and at most one script with a DOI are present, the two
  variants return the same record or the same error; they return the same error when
  the parser refuses the text.
\<close>

theorem variants_agree_when_unambiguous:
  assumes staged: "map_of fs (resolve file_path) = Some (File text)"
  shows "(\<forall>soup. parse (universal_newlines text) = Inr soup \<longrightarrow>
            (\<forall>r. extract_data_from_html parse (universal_newlines text) = Inr r \<longrightarrow>
               (\<exists>r'. extract_file parse fs file_path = Inr r'
                      \<and> Title r' = Title r \<and> Abstract r' = Abstract r)
               \<and> extract_title_from_html parse fs file_path = Inr (Title r)
               \<and> extract_abstract_from_html parse fs file_path = Inr (Abstract r)
               \<and> Authors r =
                   (if author_divs soup = [] then None
                    else Some (clean_authors (join '' ''
                           (map get_text_strip (author_divs soup)))))
               \<and> (case labelled_divs soup of
                     [] \<Rightarrow> Inr None
                   | d # rest \<Rightarrow> map_sum id Some (date_of_div (last (d # rest))))
                   = Inr (Publication_date r)
               \<and> DOI r =
                   (case doi_scripts soup of
                      [] \<Rightarrow> None
                    | script # rest \<Rightarrow> script_doi (last (script # rest))))
            \<and> extract_authors_from_html parse fs file_path =
                Inr (if author_divs soup = [] then None
                     else Some (join '' '' (map (\<lambda>d. clean_authors (get_text_strip d))
                                              (author_divs soup))))
            \<and> extract_publication_date_from_html parse fs file_path =
                (case labelled_divs soup of
                   [] \<Rightarrow> Inr None
                 | d # rest \<Rightarrow> map_sum id Some (date_of_div d))
            \<and> extract_doi_from_html parse fs file_path =
                Inr (case doi_scripts soup of
                       [] \<Rightarrow> None
                     | script # rest \<Rightarrow> script_doi script)
            \<and> (length (author_divs soup) \<le> 1
               \<and> length (labelled_divs soup) \<le> 1
               \<and> length (doi_scripts soup) \<le> 1 \<longrightarrow>
               extract_file parse fs file_path
                 = extract_data_from_html parse (universal_newlines text)))
         \<and> (\<forall>e. parse (universal_newlines text) = Inl e \<longrightarrow>
               extract_file parse fs file_path = Inl e
               \<and> extract_data_from_html parse (universal_newlines text) = Inl e)
         \<and> (CHR 0x0D \<notin> set text \<longrightarrow> universal_newlines text = text)"
proof -
  let ?html = "universal_newlines text"
  from staged have opened: "open_read fs file_path = Inr ?html"
    by (simp add: open_read_def)
  have accepted: "(\<forall>r. extract_data_from_html parse ?html = Inr r \<longrightarrow>
               (\<exists>r'. extract_file parse fs file_path = Inr r'
                      \<and> Title r' = Title r \<and> Abstract r' = Abstract r)
               \<and> extract_title_from_html parse fs file_path = Inr (Title r)
               \<and> extract_abstract_from_html parse fs file_path = Inr (Abstract r)
               \<and> Authors r =
                   (if author_divs soup = [] then None
                    else Some (clean_authors (join '' ''
                           (map get_text_strip (author_divs soup)))))
               \<and> (case labelled_divs soup of
                     [] \<Rightarrow> Inr None
                   | d # rest \<Rightarrow> map_sum id Some (date_of_div (last (d # rest))))
                   = Inr (Publication_date r)
               \<and> DOI r =
                   (case doi_scripts soup of
                      [] \<Rightarrow> None
                    | script # rest \<Rightarrow> script_doi (last (script # rest))))
            \<and> extract_authors_from_html parse fs file_path =
                Inr (if author_divs soup = [] then None
                     else Some (join '' '' (map (\<lambda>d. clean_authors (get_text_strip d))
                                              (author_divs soup))))
            \<and> extract_publication_date_from_html parse fs file_path =
                (case labelled_divs soup of
                   [] \<Rightarrow> Inr None
                 | d # rest \<Rightarrow> map_sum id Some (date_of_div d))
            \<and> extract_doi_from_html parse fs file_path =
                Inr (case doi_scripts soup of
                       [] \<Rightarrow> None
                     | script # rest \<Rightarrow> script_doi script)
            \<and> (length (author_divs soup) \<le> 1
               \<and> length (labelled_divs soup) \<le> 1
               \<and> length (doi_scripts soup) \<le> 1 \<longrightarrow>
               extract_file parse fs file_path = extract_data_from_html parse ?html)"
    if parsed: "parse ?html = Inr soup" for soup
  proof -
    note t1 = staged_title [where parse = parse and html = "?html", OF opened parsed]
      and a1 = staged_authors [where parse = parse and html = "?html", OF opened parsed]
      and p1 = staged_date [where parse = parse and html = "?html", OF opened parsed]
      and d1 = staged_doi [where parse = parse and html = "?html", OF opened parsed]
      and b1 = staged_abstract [where parse = parse and html = "?html", OF opened parsed]
      and m = in_memory_record [where parse = parse and html = "?html", OF parsed]
    have rec: "(\<exists>r'. extract_file parse fs file_path = Inr r'
                      \<and> Title r' = Title r \<and> Abstract r' = Abstract r)
               \<and> extract_title_from_html parse fs file_path = Inr (Title r)
               \<and> extract_abstract_from_html parse fs file_path = Inr (Abstract r)
               \<and> Authors r =
                   (if author_divs soup = [] then None
                    else Some (clean_authors (join '' ''
                           (map get_text_strip (author_divs soup)))))
               \<and> (case labelled_divs soup of
                     [] \<Rightarrow> Inr None
                   | d # rest \<Rightarrow> map_sum id Some (date_of_div (last (d # rest))))
                   = Inr (Publication_date r)
               \<and> DOI r =
                   (case doi_scripts soup of
                      [] \<Rightarrow> None
                    | script # rest \<Rightarrow> script_doi (last (script # rest)))"
      if r: "extract_data_from_html parse ?html = Inr r" for r
    proof -
      from r obtain pd where pd: "last_published (history_divs soup) None = Inr pd"
        by (cases "last_published (history_divs soup) None") (simp_all add: m bind_err_def)
      from r have t: "extract_title_from_html parse fs file_path = Inr (Title r)"
        by (auto simp: m bind_err_def pd t1)
      from r have b: "extract_abstract_from_html parse fs file_path = Inr (Abstract r)"
        by (auto simp: m bind_err_def pd b1)
      from r have a: "Authors r =
          (if author_divs soup = [] then None
           else Some (clean_authors (join '' '' (map get_text_strip (author_divs soup)))))"
        by (auto simp: m bind_err_def pd)
      from r have "Publication_date r = pd"
        by (auto simp: m bind_err_def pd)
      with last_published_last [OF pd]
      have p: "(case labelled_divs soup of
                    [] \<Rightarrow> Inr None
                  | d # rest \<Rightarrow> map_sum id Some (date_of_div (last (d # rest))))
                  = Inr (Publication_date r)"
        by (simp add: labelled_divs_def)
      from r have "DOI r = last_doi (soup_find_all ''script'' (\<lambda>x. True) soup) None"
        by (auto simp: m bind_err_def pd)
      then have d: "DOI r =
                  (case doi_scripts soup of
                     [] \<Rightarrow> None
                   | script # rest \<Rightarrow> script_doi (last (script # rest)))"
        by (simp add: last_doi_last doi_scripts_def)
      from last_published_first [OF pd] obtain x
        where x: "first_published (history_divs soup) = Inr x"
        by blast
      have "\<exists>r'. extract_file parse fs file_path = Inr r'
                      \<and> Title r' = Title r \<and> Abstract r' = Abstract r"
        unfolding extract_file_def t b a1 p1 d1 x by (simp add: bind_err_def)
      with t b a p d show ?thesis by (intro conjI)
    qed
    have au: "extract_authors_from_html parse fs file_path =
        Inr (if author_divs soup = [] then None
             else Some (join '' '' (map (\<lambda>d. clean_authors (get_text_strip d))
                                      (author_divs soup))))"
      by (rule a1)
    have da: "extract_publication_date_from_html parse fs file_path =
               (case labelled_divs soup of
                  [] \<Rightarrow> Inr None
                | d # rest \<Rightarrow> map_sum id Some (date_of_div d))"
      by (simp add: p1 first_published_filter labelled_divs_def)
    have dois: "extract_doi_from_html parse fs file_path =
               Inr (case doi_scripts soup of
                      [] \<Rightarrow> None
                    | script # rest \<Rightarrow> script_doi script)"
      by (simp add: d1 first_doi_filter doi_scripts_def)
    have eq: "extract_file parse fs file_path = extract_data_from_html parse ?html"
      if h: "length (author_divs soup) \<le> 1
               \<and> length (labelled_divs soup) \<le> 1
               \<and> length (doi_scripts soup) \<le> 1"
    proof -
      from h have p: "last_published (history_divs soup) None
                    = first_published (history_divs soup)"
        by (simp add: published_agree labelled_divs_def)
      from h have d: "last_doi (soup_find_all ''script'' (\<lambda>x. True) soup) None
                    = first_doi (soup_find_all ''script'' (\<lambda>x. True) soup)"
        by (simp add: doi_agree doi_scripts_def)
      from h have a: "author_divs soup \<noteq> [] \<Longrightarrow>
          join '' '' (map (\<lambda>d. clean_authors (get_text_strip d)) (author_divs soup))
            = clean_authors (join '' '' (map get_text_strip (author_divs soup)))"
        by (simp add: authors_agree)
      show ?thesis
        unfolding extract_file_def m t1 a1 p1 d1 b1 p d
        using a by (simp add: bind_err_def split: sum.splits)
    qed
    from rec au da dois eq show ?thesis by (intro conjI allI impI) blast+
  qed
  have rejected: "extract_file parse fs file_path = Inl e
               \<and> extract_data_from_html parse ?html = Inl e"
    if "parse ?html = Inl e" for e
    using that opened
    by (simp add: staged_rejected [where parse = parse and html = "?html"] in_memory_rejected)
  have plain: "universal_newlines text = text" if "CHR 0x0D \<notin> set text"
    using that by (rule universal_newlines_plain)
  from accepted rejected plain show ?thesis by (intro conjI allI impI) blast+
qed

lemma full_page_counts:
  "length (author_divs full_page) \<le> 1 \<and> length (labelled_divs full_page) \<le> 1
   \<and> length (doi_scripts full_page) \<le> 1"
  by code_simp

theorem variants_agree_when_unambiguous_witness:
  "extract_file (\<lambda>html. Inr full_page) [(''page_1.html'', File ''<html>'')] ''./page_1.html''
     = Inr \<lparr>Title = Some ''On Scraping'',
            Authors = Some ''Jane Doe.Dept of X..'',
            Publication_date = Some ''May 5, 2024'',
            DOI = Some ''10.1177/00222429'',
            Abstract = Some ''We scrape.''\<rparr>
   \<and> extract_data_from_html (\<lambda>html. Inr full_page) ''<html>''
     = extract_file (\<lambda>html. Inr full_page) [(''page_1.html'', File ''<html>'')] ''./page_1.html''"
proof -
  have o: "map_of [(''page_1.html'', File ''<html>'')] (resolve ''./page_1.html'')
             = Some (File ''<html>'')"
    by (simp add: resolve_def)
  have n: "CHR 0x0D \<notin> set ''<html>''"
    by simp
  have p: "(\<lambda>html. Inr full_page :: error + node) (universal_newlines ''<html>'') = Inr full_page"
    by simp
  have v: "extract_file (\<lambda>html. Inr full_page) [(''page_1.html'', File ''<html>'')] ''./page_1.html''
     = Inr \<lparr>Title = Some ''On Scraping'',
            Authors = Some ''Jane Doe.Dept of X..'',
            Publication_date = Some ''May 5, 2024'',
            DOI = Some ''10.1177/00222429'',
            Abstract = Some ''We scrape.''\<rparr>"
    by code_simp
  note agree = variants_agree_when_unambiguous [OF o, of "\<lambda>html. Inr full_page"]
  from agree n have same: "universal_newlines ''<html>'' = ''<html>''"
    by blast
  from agree p full_page_counts
  have "extract_file (\<lambda>html. Inr full_page) [(''page_1.html'', File ''<html>'')] ''./page_1.html''
          = extract_data_from_html (\<lambda>html. Inr full_page) (universal_newlines ''<html>'')"
    by blast
  with v same show ?thesis by simp
qed

section \<open>Table Exporter and the two passes of the staging driver\<close>

lemma first_seen_repeat:
  "distinct ks \<Longrightarrow> set rest \<subseteq> set ks \<Longrightarrow> first_seen (ks @ rest) = ks"
proof -
  assume d: "distinct ks" and sub: "set rest \<subseteq> set ks"
  from sub have "set (rev rest) \<subseteq> set (rev ks)" by simp
  then have "remdups (rev rest @ rev ks) = remdups (rev ks)"
    by (rule remdups_append)
  moreover from d have "remdups (rev ks) = rev ks"
    by (simp add: distinct_remdups_id)
  ultimately show ?thesis by (simp add: first_seen_def)
qed

lemma keys_article_dict: "map fst (article_dict r) = column_names"
  by (simp add: article_dict_def column_names_def)

lemma frame_columns_articles:
  "frame_columns (map article_dict data) = (if data = [] then [] else column_names)"
proof (cases data)
  case Nil
  then show ?thesis by (simp add: frame_columns_def first_seen_def)
next
  case (Cons r rs)
  have "set (concat (map (map fst) (map article_dict rs))) \<subseteq> set column_names"
    by (auto simp: keys_article_dict)
  moreover have "distinct column_names"
    by (simp add: column_names_def)
  ultimately have "first_seen (column_names @ concat (map (map fst) (map article_dict rs)))
                     = column_names"
    by (rule first_seen_repeat [rotated])
  with Cons show ?thesis by (simp add: frame_columns_def keys_article_dict)
qed

lemma row_of_article:
  "map (\<lambda>c. cell (map_of (article_dict r) c)) column_names = article_row r"
  by (simp add: article_dict_def column_names_def article_row_def)

lemma to_csv_table:
  "to_csv data =
     \<lparr>header = (if data = [] then [] else column_names), rows = map article_row data\<rparr>"
proof (cases "data = []")
  case True
  then show ?thesis by (simp add: to_csv_def Let_def frame_columns_def first_seen_def)
next
  case False
  then show ?thesis
    by (simp add: to_csv_def Let_def frame_columns_articles row_of_article comp_def)
qed

lemma map_filter_cong_set:
  "(\<And>x. x \<in> set xs \<Longrightarrow> f x = g x) \<Longrightarrow> List.map_filter f xs = List.map_filter g xs"
  by (induction xs) (auto simp: map_filter_simps split: option.splits)

lemma resolve_join: "resolve (os_path_join html_directory filename) = filename"
  by (simp add: resolve_def os_path_join_def html_directory_def)

lemma extract_file_same_entry:
  "map_of fs (resolve p) = map_of fs' (resolve p) \<Longrightarrow>
   extract_file parse fs p = extract_file parse fs' p"
proof -
  assume "map_of fs (resolve p) = map_of fs' (resolve p)"
  then have "open_read fs p = open_read fs' p"
    by (simp add: open_read_def)
  then show ?thesis
    by (simp add: extract_file_def extract_title_from_html_def extract_authors_from_html_def
        extract_publication_date_from_html_def extract_doi_from_html_def
        extract_abstract_from_html_def)
qed

lemma extract_file_opens:
  "extract_file parse fs p = Inr r \<Longrightarrow> \<exists>t. map_of fs (resolve p) = Some (File t)"
proof -
  assume a: "extract_file parse fs p = Inr r"
  have "\<exists>t. open_read fs p = Inr t"
  proof (cases "open_read fs p")
    case (Inl e)
    then have "extract_file parse fs p = Inl e"
      by (simp add: extract_file_def extract_title_from_html_def bind_err_def)
    with a show ?thesis by simp
  next
    case (Inr t)
    then show ?thesis by blast
  qed
  then show ?thesis
    by (auto simp: open_read_def split: option.splits entry.splits)
qed

lemma extract_staged_present:
  "extract_staged parse names fs data = Inr res \<Longrightarrow> n \<in> set names \<Longrightarrow> suffix ''.html'' n
   \<Longrightarrow> \<exists>t. map_of fs n = Some (File t)"
proof (induction names arbitrary: fs data)
  case Nil
  then show ?case by simp
next
  case (Cons filename rest)
  show ?case
  proof (cases "suffix ''.html'' filename")
    case False
    with Cons.prems have "extract_staged parse rest fs data = Inr res" "n \<in> set rest"
      by auto
    with Cons.IH Cons.prems(3) show ?thesis by blast
  next
    case True
    let ?p = "os_path_join html_directory filename"
    from True Cons.prems(1) obtain r where r: "extract_file parse fs ?p = Inr r"
      by (cases "extract_file parse fs ?p") auto
    from extract_file_opens [OF r] obtain t where t: "map_of fs filename = Some (File t)"
      by (auto simp: resolve_join)
    then have rm: "os_remove fs ?p = Inr (AList.delete filename fs)"
      by (simp add: os_remove_def resolve_join)
    from True Cons.prems(1) r rm
    have rec: "extract_staged parse rest (AList.delete filename fs)
                 (if truthy (Title r) then data @ [r] else data) = Inr res"
      by simp
    show ?thesis
    proof (cases "n = filename")
      case True
      with t show ?thesis by blast
    next
      case False
      with Cons.prems(2) have "n \<in> set rest" by simp
      from Cons.IH [OF rec this Cons.prems(3)]
      obtain u where "map_of (AList.delete filename fs) n = Some (File u)" by blast
      then have "map_of fs n = Some (File u)"
        by (simp add: delete_conv' split: if_splits)
      then show ?thesis by blast
    qed
  qed
qed

lemma extract_staged_result:
  "extract_staged parse names fs data = Inr (fs', data') \<Longrightarrow>
   data' = data @ records_of parse fs names
   \<and> (\<forall>n. map_of fs' n = (if n \<in> set names \<and> suffix ''.html'' n then None else map_of fs n))
   \<and> (\<forall>n\<in>set names. suffix ''.html'' n \<longrightarrow>
          (\<exists>r. extract_file parse fs (os_path_join html_directory n) = Inr r))"
proof (induction names arbitrary: fs data)
  case Nil
  then show ?case by (simp add: records_of_def map_filter_simps)
next
  case (Cons filename rest)
  show ?case
  proof (cases "suffix ''.html'' filename")
    case False
    with Cons.prems have "extract_staged parse rest fs data = Inr (fs', data')"
      by simp
    from Cons.IH [OF this] False show ?thesis
      by (auto simp: records_of_def)
  next
    case True
    let ?p = "os_path_join html_directory filename"
    let ?fs2 = "AList.delete filename fs"
    from True Cons.prems obtain r where r: "extract_file parse fs ?p = Inr r"
      by (cases "extract_file parse fs ?p") auto
    from extract_file_opens [OF r] obtain t where t: "map_of fs filename = Some (File t)"
      by (auto simp: resolve_join)
    then have rm: "os_remove fs ?p = Inr ?fs2"
      by (simp add: os_remove_def resolve_join)
    from True Cons.prems r rm
    have rec: "extract_staged parse rest ?fs2 (if truthy (Title r) then data @ [r] else data)
                 = Inr (fs', data')"
      by simp
    from Cons.IH [OF rec]
    have d: "data' = (if truthy (Title r) then data @ [r] else data) @ records_of parse ?fs2 rest"
      and m: "\<forall>n. map_of fs' n = (if n \<in> set rest \<and> suffix ''.html'' n then None else map_of ?fs2 n)"
      and x: "\<forall>n\<in>set rest. suffix ''.html'' n \<longrightarrow>
                (\<exists>r. extract_file parse ?fs2 (os_path_join html_directory n) = Inr r)"
      by blast+
    have file_same: "extract_file parse ?fs2 (os_path_join html_directory n)
                   = extract_file parse fs (os_path_join html_directory n)"
      if "n \<in> set rest" "suffix ''.html'' n" for n
    proof -
      from extract_staged_present [OF rec that]
      obtain u where "map_of ?fs2 n = Some (File u)" by blast
      then have "map_of ?fs2 n = map_of fs n"
        by (simp add: delete_conv' split: if_splits)
      then show ?thesis
        by (intro extract_file_same_entry) (simp add: resolve_join)
    qed
    have same: "file_retained parse ?fs2 n = file_retained parse fs n"
      if "n \<in> set (filter (suffix ''.html'') rest)" for n
      using that file_same by (simp add: file_retained_def)
    have "records_of parse ?fs2 rest = records_of parse fs rest"
      unfolding records_of_def by (rule map_filter_cong_set) (rule same)
    with d True r have "data' = data @ records_of parse fs (filename # rest)"
      by (simp add: records_of_def map_filter_simps file_retained_def)
    moreover from m have "\<forall>n. map_of fs' n =
        (if n \<in> set (filename # rest) \<and> suffix ''.html'' n then None else map_of fs n)"
      using True by (auto simp: delete_conv')
    moreover from x file_same r
    have "\<forall>n\<in>set (filename # rest). suffix ''.html'' n \<longrightarrow>
            (\<exists>r. extract_file parse fs (os_path_join html_directory n) = Inr r)"
      by auto
    ultimately show ?thesis by blast
  qed
qed

lemma extract_staged_no_html:
  "\<forall>name\<in>set names. \<not> suffix ''.html'' name \<Longrightarrow>
   extract_staged parse names fs data = Inr (fs, data)"
  by (induction names) auto

lemma suffix_page_filename: "suffix ''.html'' (page_filename i)"
  unfolding page_filename_def suffix_def by (rule exI [of _ "''page_'' @ str_nat i"]) simp

lemma stage_pages_files:
  "stage_pages render i hrefs fs = Inr fs1 \<Longrightarrow>
   (\<forall>k<length hrefs. \<exists>t. map_of fs1 (page_filename (i + k)) = Some (File t))
   \<and> (\<forall>n. (\<exists>t. map_of fs n = Some (File t)) \<longrightarrow> (\<exists>t. map_of fs1 n = Some (File t)))
   \<and> (\<forall>n. (\<forall>k<length hrefs. n \<noteq> page_filename (i + k)) \<longrightarrow> map_of fs1 n = map_of fs n)"
proof (induction hrefs arbitrary: i fs)
  case Nil
  then show ?case by simp
next
  case (Cons href hrefs)
  from Cons.prems obtain html where h: "render (base_url @ href) = Inr html"
    by (cases "render (base_url @ href)") (auto simp: process_page_def)
  from Cons.prems h obtain fs2 where w: "open_write fs (page_filename i) html = Inr fs2"
    by (cases "open_write fs (page_filename i) html") (auto simp: process_page_def)
  have res: "resolve (page_filename i) = page_filename i"
    by (simp add: resolve_def page_filename_def)
  from w have fs2: "map_of fs2 = (map_of fs)(page_filename i \<mapsto> File html)"
    by (auto simp: open_write_def res update_conv' split: option.splits entry.splits)
  from Cons.prems h w have rec: "stage_pages render (Suc i) hrefs fs2 = Inr fs1"
    by (simp add: process_page_def)
  note ih = Cons.IH [OF rec]
  have a: "\<exists>t. map_of fs1 (page_filename (i + k)) = Some (File t)" if "k < length (href # hrefs)" for k
  proof (cases k)
    case 0
    have "\<exists>t. map_of fs2 (page_filename i) = Some (File t)" by (simp add: fs2)
    with ih 0 show ?thesis by auto
  next
    case (Suc j)
    with that have "j < length hrefs" by simp
    with ih Suc show ?thesis by auto
  qed
  have b: "\<exists>t. map_of fs1 n = Some (File t)" if "\<exists>t. map_of fs n = Some (File t)" for n
  proof -
    from that have "\<exists>t. map_of fs2 n = Some (File t)" by (auto simp: fs2)
    with ih show ?thesis by blast
  qed
  have c: "map_of fs1 n = map_of fs n" if "\<forall>k<length (href # hrefs). n \<noteq> page_filename (i + k)" for n
  proof -
    from that have "n \<noteq> page_filename (i + 0)" by blast
    then have n0: "n \<noteq> page_filename i" by simp
    have "\<forall>k<length hrefs. n \<noteq> page_filename (Suc i + k)"
    proof (intro allI impI)
      fix k assume "k < length hrefs"
      then have "Suc k < length (href # hrefs)" by simp
      with that have "n \<noteq> page_filename (i + Suc k)" by blast
      then show "n \<noteq> page_filename (Suc i + k)" by simp
    qed
    with ih have "map_of fs1 n = map_of fs2 n" by blast
    with n0 show ?thesis by (simp add: fs2)
  qed
  from a b c show ?case by blast
qed

lemma scrape_articles_order:
  "scrape_articles render parse hrefs data = Inr out \<Longrightarrow>
   map Inr out = map Inr data @ map (page_record render parse)
                                   (filter (link_retained render parse) hrefs)"
proof (induction hrefs arbitrary: data)
  case Nil
  then show ?case by simp
next
  case (Cons href hrefs)
  from Cons.prems obtain html where h: "render (base_url @ href) = Inr html"
    by (cases "render (base_url @ href)") auto
  from Cons.prems h obtain r where r: "extract_data_from_html parse html = Inr r"
    by (cases "extract_data_from_html parse html") auto
  from h r have pr: "page_record render parse href = Inr r"
    by (simp add: page_record_def bind_err_def)
  from Cons.prems h r
  have rec: "scrape_articles render parse hrefs (if truthy (Title r) then data @ [r] else data)
               = Inr out"
    by simp
  from Cons.IH [OF rec] pr show ?case
    by (simp add: link_retained_def)
qed




section \<open>The runs of the two drivers\<close>

lemma main2_result:
  "main_webScraping2 render parse main_page = Inr tbl \<Longrightarrow>
   \<exists>data. scrape_articles render parse (extract_links main_page) [] = Inr data \<and> tbl = to_csv data"
  by (cases "scrape_articles render parse (extract_links main_page) []")
     (auto simp: main_webScraping2_def bind_err_def)

lemma main_staging_result:
  "main_webScraping render parse listdir main_page fs = Inr (fs', tbl) \<Longrightarrow>
   \<exists>fs1 data. stage_pages render 1 (extract_links main_page) fs = Inr fs1
      \<and> extract_staged parse (listdir fs1) fs1 [] = Inr (fs', data) \<and> tbl = to_csv data"
proof -
  assume run: "main_webScraping render parse listdir main_page fs = Inr (fs', tbl)"
  then obtain fs1 where s: "stage_pages render 1 (extract_links main_page) fs = Inr fs1"
    by (cases "stage_pages render 1 (extract_links main_page) fs")
       (auto simp: main_webScraping_def bind_err_def)
  with run obtain res where e: "extract_staged parse (listdir fs1) fs1 [] = Inr res"
    by (cases "extract_staged parse (listdir fs1) fs1 []")
       (auto simp: main_webScraping_def bind_err_def)
  obtain fs2 data where res: "res = (fs2, data)" by (cases res)
  with run s e have "fs' = fs2" "tbl = to_csv data"
    by (auto simp: main_webScraping_def bind_err_def)
  with s e res show ?thesis by blast
qed

text \<open>
  C4 (amended). When the listing page has no anchor whose href begins with \<open>/doi/abs/\<close>,
  the Link Collector returns the empty sequence and the in-memory run ends without error
  with a table of no columns and no rows: the header row is empty, since the column names
  are the keys of the exported records and there is none. The staging run does the same
  when the working directory lists no name ending in \<open>.html\<close>. The five column names
  head the table whenever at least one record is exported.
\<close>

theorem no_links_empty_table:
  assumes no_links: "\<forall>n\<in>set (descendants main_page). \<not> is_article_link n"
  shows "extract_links main_page = []
         \<and> main_webScraping2 render parse main_page = Inr \<lparr>header = [], rows = []\<rparr>
         \<and> ((\<forall>name\<in>set (listdir fs). \<not> suffix ''.html'' name) \<longrightarrow>
              main_webScraping render parse listdir main_page fs
                = Inr (fs, \<lparr>header = [], rows = []\<rparr>))
         \<and> (\<forall>data. data \<noteq> [] \<longrightarrow>
              header (to_csv data) =
                [''Title'', ''Authors With Their Affliations'', ''Publication_date'', ''DOI'',
                 ''Abstract''])"
proof -
  from no_links have "filter is_article_link (descendants main_page) = []"
    by (simp add: filter_empty_conv)
  then have links: "extract_links main_page = []"
    by (simp add: extract_links_def map_filter_simps)
  have empty: "to_csv [] = \<lparr>header = [], rows = []\<rparr>"
    by (simp add: to_csv_table)
  have m2: "main_webScraping2 render parse main_page = Inr \<lparr>header = [], rows = []\<rparr>"
    by (simp add: main_webScraping2_def links bind_err_def empty)
  have m1: "main_webScraping render parse listdir main_page fs = Inr (fs, \<lparr>header = [], rows = []\<rparr>)"
    if "\<forall>name\<in>set (listdir fs). \<not> suffix ''.html'' name"
    using extract_staged_no_html [OF that, of parse fs "[]"]
    by (simp add: main_webScraping_def links bind_err_def empty)
  have hd: "header (to_csv data) =
      [''Title'', ''Authors With Their Affliations'', ''Publication_date'', ''DOI'', ''Abstract'']"
    if "data \<noteq> []" for data
    using that by (simp add: to_csv_table column_names_def)
  from links m2 m1 hd show ?thesis by blast
qed

theorem no_links_empty_table_witness:
  "extract_links empty_toc = []
   \<and> main_webScraping2 site_render site_parse empty_toc = Inr \<lparr>header = [], rows = []\<rparr>
   \<and> main_webScraping site_render site_parse (map fst) empty_toc [(''notes.txt'', File ''keep'')]
       = Inr ([(''notes.txt'', File ''keep'')], \<lparr>header = [], rows = []\<rparr>)"
proof -
  have h: "\<forall>n\<in>set (descendants empty_toc). \<not> is_article_link n"
    by (simp add: empty_toc_def is_article_link_def)
  have l: "\<forall>name\<in>set (map fst [(''notes.txt'', File ''keep'')]). \<not> suffix ''.html'' name"
    by (simp add: suffix_to_prefix)
  from no_links_empty_table [OF h, of site_render site_parse "map fst"
      "[(''notes.txt'', File ''keep'')]"] l
  show ?thesis by blast
qed

text \<open>With no article link the table is not the header row of the five column names.\<close>

theorem no_links_no_header:
  "main_webScraping2 site_render site_parse empty_toc
     \<noteq> Inr \<lparr>header = [''Title'', ''Authors With Their Affliations'', ''Publication_date'',
                       ''DOI'', ''Abstract''],
            rows = []\<rparr>"
  by code_simp

text \<open>
  C5 (amended). In the in-memory variant the exported records follow link-discovery
  order: the record at each position is the record of the link at the same position among
  the retained links. In the staging variant the exported records follow the order in
  which the directory listing returns the names ending in \<open>.html\<close>.
\<close>

theorem in_memory_link_order:
  "(\<forall>tbl. main_webScraping2 render parse main_page = Inr tbl \<longrightarrow>
      (\<exists>data. tbl = to_csv data \<and> rows tbl = map article_row data
         \<and> length data = length (filter (link_retained render parse) (extract_links main_page))
         \<and> (\<forall>i<length data.
               page_record render parse
                 (filter (link_retained render parse) (extract_links main_page) ! i)
               = Inr (data ! i))))
   \<and> (\<forall>fs1 fs' tbl.
        stage_pages render 1 (extract_links main_page) fs = Inr fs1
        \<and> main_webScraping render parse listdir main_page fs = Inr (fs', tbl) \<longrightarrow>
        rows tbl = map article_row (records_of parse fs1 (listdir fs1)))"
proof (intro conjI allI impI)
  fix tbl
  assume run: "main_webScraping2 render parse main_page = Inr tbl"
  let ?kept = "filter (link_retained render parse) (extract_links main_page)"
  from main2_result [OF run] obtain data
    where d: "scrape_articles render parse (extract_links main_page) [] = Inr data"
      and t: "tbl = to_csv data"
    by blast
  from scrape_articles_order [OF d]
  have m: "map Inr data = map (page_record render parse) ?kept"
    by simp
  then have len: "length data = length ?kept"
    by (rule map_eq_imp_length_eq)
  have pos: "page_record render parse (?kept ! i) = Inr (data ! i)" if "i < length data" for i
  proof -
    from that len have "page_record render parse (?kept ! i)
        = map (page_record render parse) ?kept ! i"
      by simp
    also have "\<dots> = map Inr data ! i"
      by (simp only: m)
    also from that have "\<dots> = Inr (data ! i)"
      by simp
    finally show ?thesis .
  qed
  from t have "rows tbl = map article_row data"
    by (simp add: to_csv_table)
  with t len pos
  show "\<exists>data. tbl = to_csv data \<and> rows tbl = map article_row data
         \<and> length data = length ?kept
         \<and> (\<forall>i<length data. page_record render parse (?kept ! i) = Inr (data ! i))"
    by blast
next
  fix fs1 fs' tbl
  assume a: "stage_pages render 1 (extract_links main_page) fs = Inr fs1
        \<and> main_webScraping render parse listdir main_page fs = Inr (fs', tbl)"
  then have run: "main_webScraping render parse listdir main_page fs = Inr (fs', tbl)" by simp
  from main_staging_result [OF run] a obtain data
    where e: "extract_staged parse (listdir fs1) fs1 [] = Inr (fs', data)"
      and t: "tbl = to_csv data"
    by auto
  from extract_staged_result [OF e] have "data = records_of parse fs1 (listdir fs1)"
    by simp
  with t show "rows tbl = map article_row (records_of parse fs1 (listdir fs1))"
    by (simp add: to_csv_table)
qed

theorem in_memory_link_order_witness:
  "main_webScraping2 site_render site_parse toc_page
     = Inr \<lparr>header = [''Title'', ''Authors With Their Affliations'', ''Publication_date'',
                       ''DOI'', ''Abstract''],
            rows = [[''Title A'', [], [], [], []], [''Title B'', [], [], [], []]]\<rparr>
   \<and> filter (link_retained site_render site_parse) (extract_links toc_page)
       = [''/doi/abs/a'', ''/doi/abs/b'']
   \<and> (\<exists>data. length data = 2
         \<and> page_record site_render site_parse ''/doi/abs/a'' = Inr (data ! 0)
         \<and> page_record site_render site_parse ''/doi/abs/b'' = Inr (data ! 1)
         \<and> map article_row data = [[''Title A'', [], [], [], []], [''Title B'', [], [], [], []]])
   \<and> map article_row
         (records_of site_parse
            [(''page_1.html'', File ''A''), (''page_2.html'', File ''C''),
             (''page_3.html'', File ''B'')]
            [''page_3.html'', ''page_2.html'', ''page_1.html''])
       = [[''Title B'', [], [], [], []], [''Title A'', [], [], [], []]]"
proof -
  have run: "main_webScraping2 site_render site_parse toc_page
     = Inr \<lparr>header = [''Title'', ''Authors With Their Affliations'', ''Publication_date'',
                       ''DOI'', ''Abstract''],
            rows = [[''Title A'', [], [], [], []], [''Title B'', [], [], [], []]]\<rparr>"
    by code_simp
  have kept: "filter (link_retained site_render site_parse) (extract_links toc_page)
       = [''/doi/abs/a'', ''/doi/abs/b'']"
    by code_simp
  have st: "stage_pages site_render 1 (extract_links toc_page) []
       = Inr [(''page_1.html'', File ''A''), (''page_2.html'', File ''C''),
              (''page_3.html'', File ''B'')]"
    by code_simp
  have run1: "main_webScraping site_render site_parse (\<lambda>fs. rev (map fst fs)) toc_page []
       = Inr ([], \<lparr>header = [''Title'', ''Authors With Their Affliations'', ''Publication_date'',
                              ''DOI'', ''Abstract''],
                   rows = [[''Title B'', [], [], [], []], [''Title A'', [], [], [], []]]\<rparr>)"
    by code_simp
  note order = in_memory_link_order [of site_render site_parse toc_page "[]"
      "\<lambda>fs. rev (map fst fs)"]
  from order run
  obtain data where d: "rows \<lparr>header = [''Title'', ''Authors With Their Affliations'',
            ''Publication_date'', ''DOI'', ''Abstract''],
            rows = [[''Title A'', [], [], [], []], [''Title B'', [], [], [], []]]\<rparr>
          = map article_row data"
      "length data = length (filter (link_retained site_render site_parse) (extract_links toc_page))"
      "\<forall>i<length data. page_record site_render site_parse
          (filter (link_retained site_render site_parse) (extract_links toc_page) ! i)
          = Inr (data ! i)"
    by blast
  from d(2) kept have len: "length data = 2" by simp
  from d(3) [rule_format, of 0] len kept
  have a: "page_record site_render site_parse ''/doi/abs/a'' = Inr (data ! 0)"
    by simp
  from d(3) [rule_format, of 1] len kept
  have b: "page_record site_render site_parse ''/doi/abs/b'' = Inr (data ! 1)"
    by simp
  from d(1) have r: "map article_row data
      = [[''Title A'', [], [], [], []], [''Title B'', [], [], [], []]]"
    by simp
  from len a b r have ex: "\<exists>data. length data = 2
         \<and> page_record site_render site_parse ''/doi/abs/a'' = Inr (data ! 0)
         \<and> page_record site_render site_parse ''/doi/abs/b'' = Inr (data ! 1)
         \<and> map article_row data = [[''Title A'', [], [], [], []], [''Title B'', [], [], [], []]]"
    by (intro exI [of _ data] conjI)
  from order st run1
  have "rows \<lparr>header = [''Title'', ''Authors With Their Affliations'', ''Publication_date'',
                              ''DOI'', ''Abstract''],
                   rows = [[''Title B'', [], [], [], []], [''Title A'', [], [], [], []]]\<rparr>
        = map article_row
            (records_of site_parse
               [(''page_1.html'', File ''A''), (''page_2.html'', File ''C''),
                (''page_3.html'', File ''B'')]
               (rev (map fst [(''page_1.html'', File ''A''), (''page_2.html'', File ''C''),
                (''page_3.html'', File ''B'')])))"
    by blast
  then have stg: "map article_row
         (records_of site_parse
            [(''page_1.html'', File ''A''), (''page_2.html'', File ''C''),
             (''page_3.html'', File ''B'')]
            [''page_3.html'', ''page_2.html'', ''page_1.html''])
       = [[''Title B'', [], [], [], []], [''Title A'', [], [], [], []]]"
    by simp
  from run kept ex stg show ?thesis by (intro conjI)
qed

text \<open>A listing that returns the staged files in another order than they were written:
  the row of the third link comes before the row of the first.\<close>

theorem staging_order_not_link_order:
  "extract_links toc_page = [''/doi/abs/a'', ''/doi/abs/c'', ''/doi/abs/b'']
   \<and> main_webScraping site_render site_parse (\<lambda>fs. rev (map fst fs)) toc_page []
       = Inr ([], \<lparr>header = [''Title'', ''Authors With Their Affliations'', ''Publication_date'',
                              ''DOI'', ''Abstract''],
                   rows = [[''Title B'', [], [], [], []], [''Title A'', [], [], [], []]]\<rparr>)"
  by code_simp





text \<open>Markup that the parser refuses gives no record either.\<close>

lemma rejected_markup_no_record:
  "extract_data_from_html (\<lambda>html. Inl ParserRejectedMarkup) html = Inl ParserRejectedMarkup"
  by (simp add: extract_data_from_html_def bind_err_def)


text \<open>
  C9. In the staging variant, when the run ends without error and the directory listing
  names every entry, each file \<open>page_i.html\<close> for \<open>i\<close> from 1 to the number of links was
  written in the first pass and is absent afterwards, as is every other name ending in
  \<open>.html\<close>; the removal does not depend on the title.
\<close>

theorem staged_files_deleted:
  assumes run: "main_webScraping render parse listdir main_page fs = Inr (fs', tbl)"
    and complete: "\<forall>d. fst ` set d \<subseteq> set (listdir d)"
  shows "(\<forall>i. 1 \<le> i \<and> i \<le> length (extract_links main_page) \<longrightarrow>
            map_of fs' (page_filename i) = None)
         \<and> (\<forall>name. suffix ''.html'' name \<longrightarrow> map_of fs' name = None)
         \<and> (\<exists>fs1. stage_pages render 1 (extract_links main_page) fs = Inr fs1
              \<and> (\<forall>i. 1 \<le> i \<and> i \<le> length (extract_links main_page) \<longrightarrow>
                    (\<exists>t. map_of fs1 (page_filename i) = Some (File t))))"
proof -
  from main_staging_result [OF run] obtain fs1 data
    where s: "stage_pages render 1 (extract_links main_page) fs = Inr fs1"
      and e: "extract_staged parse (listdir fs1) fs1 [] = Inr (fs', data)"
    by blast
  from extract_staged_result [OF e]
  have m: "\<forall>n. map_of fs' n
             = (if n \<in> set (listdir fs1) \<and> suffix ''.html'' n then None else map_of fs1 n)"
    by blast
  have gone: "map_of fs' name = None" if h: "suffix ''.html'' name" for name
  proof (cases "map_of fs1 name")
    case None
    with m show ?thesis by simp
  next
    case (Some x)
    then have "name \<in> fst ` set fs1"
      by (metis map_of_eq_None_iff option.distinct(1))
    with complete have "name \<in> set (listdir fs1)" by blast
    with m h show ?thesis by simp
  qed
  have staged: "\<exists>t. map_of fs1 (page_filename i) = Some (File t)"
    if "1 \<le> i \<and> i \<le> length (extract_links main_page)" for i
  proof -
    from that have "i - 1 < length (extract_links main_page)" by arith
    with stage_pages_files [OF s]
    have "\<exists>t. map_of fs1 (page_filename (1 + (i - 1))) = Some (File t)" by blast
    with that show ?thesis by simp
  qed
  from gone have "\<forall>i. 1 \<le> i \<and> i \<le> length (extract_links main_page) \<longrightarrow>
      map_of fs' (page_filename i) = None"
    by (simp add: suffix_page_filename)
  with gone s staged show ?thesis by blast
qed

theorem staged_files_deleted_witness:
  "main_webScraping site_render site_parse (map fst) toc_page [(''notes.txt'', File ''keep'')]
     = Inr ([(''notes.txt'', File ''keep'')],
            \<lparr>header = [''Title'', ''Authors With Their Affliations'', ''Publication_date'',
                        ''DOI'', ''Abstract''],
             rows = [[''Title A'', [], [], [], []], [''Title B'', [], [], [], []]]\<rparr>)
   \<and> length (extract_links toc_page) = 3
   \<and> map_of [(''notes.txt'', File ''keep'')] (page_filename 2) = None
   \<and> stage_pages site_render 1 (extract_links toc_page) [(''notes.txt'', File ''keep'')]
       = Inr [(''notes.txt'', File ''keep''), (''page_1.html'', File ''A''),
              (''page_2.html'', File ''C''), (''page_3.html'', File ''B'')]"
proof -
  have run: "main_webScraping site_render site_parse (map fst) toc_page
               [(''notes.txt'', File ''keep'')]
     = Inr ([(''notes.txt'', File ''keep'')],
            \<lparr>header = [''Title'', ''Authors With Their Affliations'', ''Publication_date'',
                        ''DOI'', ''Abstract''],
             rows = [[''Title A'', [], [], [], []], [''Title B'', [], [], [], []]]\<rparr>)"
    by code_simp
  have complete: "\<forall>d :: directory. fst ` set d \<subseteq> set (map fst d)"
    by simp
  have len: "length (extract_links toc_page) = 3"
    by code_simp
  have st: "stage_pages site_render 1 (extract_links toc_page) [(''notes.txt'', File ''keep'')]
       = Inr [(''notes.txt'', File ''keep''), (''page_1.html'', File ''A''),
              (''page_2.html'', File ''C''), (''page_3.html'', File ''B'')]"
    by code_simp
  from staged_files_deleted [OF run complete] len
  have "map_of [(''notes.txt'', File ''keep'')] (page_filename 2) = None"
    by simp
  with run len st show ?thesis by (intro conjI)
qed

text \<open>
  C10. In the staging variant the second pass goes over the names the directory listing
  returns, in that order, for every name ending in \<open>.html\<close>: the exported table is built
  from the records of these files in listing order, each of them was parsed, and each is
  removed; any other entry is left as it was. Entries that were in the directory before
  the run and are not named like a staged page are unchanged by the first pass, so a
  file ending in \<open>.html\<close> among them is read and removed like the staged ones.
\<close>

theorem second_pass_reads_every_html:
  assumes staged: "stage_pages render 1 (extract_links main_page) fs = Inr fs1"
    and run: "main_webScraping render parse listdir main_page fs = Inr (fs', tbl)"
  shows "tbl = to_csv (records_of parse fs1 (listdir fs1))
         \<and> (\<forall>name. map_of fs' name =
               (if name \<in> set (listdir fs1) \<and> suffix ''.html'' name then None
                else map_of fs1 name))
         \<and> (\<forall>name\<in>set (listdir fs1). suffix ''.html'' name \<longrightarrow>
               (\<exists>r. extract_file parse fs1 (os_path_join html_directory name) = Inr r))
         \<and> (\<forall>name. (\<forall>i. name \<noteq> page_filename i) \<longrightarrow> map_of fs1 name = map_of fs name)"
proof -
  from main_staging_result [OF run] staged obtain data
    where e: "extract_staged parse (listdir fs1) fs1 [] = Inr (fs', data)"
      and t: "tbl = to_csv data"
    by auto
  note res = extract_staged_result [OF e]
  from res t have a: "tbl = to_csv (records_of parse fs1 (listdir fs1))" by simp
  from stage_pages_files [OF staged]
  have d: "\<forall>name. (\<forall>i. name \<noteq> page_filename i) \<longrightarrow> map_of fs1 name = map_of fs name"
    by blast
  from a res d show ?thesis by blast
qed

theorem second_pass_reads_every_html_witness:
  "stage_pages site_render 1 (extract_links toc_page)
       [(''old.html'', File ''Old''), (''notes.txt'', File ''keep'')]
     = Inr [(''old.html'', File ''Old''), (''notes.txt'', File ''keep''),
            (''page_1.html'', File ''A''), (''page_2.html'', File ''C''),
            (''page_3.html'', File ''B'')]
   \<and> main_webScraping site_render site_parse (map fst) toc_page
       [(''old.html'', File ''Old''), (''notes.txt'', File ''keep'')]
     = Inr ([(''notes.txt'', File ''keep'')],
            \<lparr>header = [''Title'', ''Authors With Their Affliations'', ''Publication_date'',
                        ''DOI'', ''Abstract''],
             rows = [[''Old title'', [], [], [], []], [''Title A'', [], [], [], []],
                     [''Title B'', [], [], [], []]]\<rparr>)
   \<and> to_csv (records_of site_parse
               [(''old.html'', File ''Old''), (''notes.txt'', File ''keep''),
                (''page_1.html'', File ''A''), (''page_2.html'', File ''C''),
                (''page_3.html'', File ''B'')]
               [''old.html'', ''notes.txt'', ''page_1.html'', ''page_2.html'', ''page_3.html''])
     = \<lparr>header = [''Title'', ''Authors With Their Affliations'', ''Publication_date'',
                  ''DOI'', ''Abstract''],
        rows = [[''Old title'', [], [], [], []], [''Title A'', [], [], [], []],
                [''Title B'', [], [], [], []]]\<rparr>"
proof -
  have st: "stage_pages site_render 1 (extract_links toc_page)
       [(''old.html'', File ''Old''), (''notes.txt'', File ''keep'')]
     = Inr [(''old.html'', File ''Old''), (''notes.txt'', File ''keep''),
            (''page_1.html'', File ''A''), (''page_2.html'', File ''C''),
            (''page_3.html'', File ''B'')]"
    by code_simp
  have run: "main_webScraping site_render site_parse (map fst) toc_page
       [(''old.html'', File ''Old''), (''notes.txt'', File ''keep'')]
     = Inr ([(''notes.txt'', File ''keep'')],
            \<lparr>header = [''Title'', ''Authors With Their Affliations'', ''Publication_date'',
                        ''DOI'', ''Abstract''],
             rows = [[''Old title'', [], [], [], []], [''Title A'', [], [], [], []],
                     [''Title B'', [], [], [], []]]\<rparr>)"
    by code_simp
  from second_pass_reads_every_html [OF st run]
  have "\<lparr>header = [''Title'', ''Authors With Their Affliations'', ''Publication_date'',
                  ''DOI'', ''Abstract''],
        rows = [[''Old title'', [], [], [], []], [''Title A'', [], [], [], []],
                [''Title B'', [], [], [], []]]\<rparr>
      = to_csv (records_of site_parse
               [(''old.html'', File ''Old''), (''notes.txt'', File ''keep''),
                (''page_1.html'', File ''A''), (''page_2.html'', File ''C''),
                (''page_3.html'', File ''B'')]
               (map fst [(''old.html'', File ''Old''), (''notes.txt'', File ''keep''),
                (''page_1.html'', File ''A''), (''page_2.html'', File ''C''),
                (''page_3.html'', File ''B'')]))"
    by (rule conjunct1)
  then have "to_csv (records_of site_parse
               [(''old.html'', File ''Old''), (''notes.txt'', File ''keep''),
                (''page_1.html'', File ''A''), (''page_2.html'', File ''C''),
                (''page_3.html'', File ''B'')]
               [''old.html'', ''notes.txt'', ''page_1.html'', ''page_2.html'', ''page_3.html''])
     = \<lparr>header = [''Title'', ''Authors With Their Affliations'', ''Publication_date'',
                  ''DOI'', ''Abstract''],
        rows = [[''Old title'', [], [], [], []], [''Title A'', [], [], [], []],
                [''Title B'', [], [], [], []]]\<rparr>"
    by simp
  with st run show ?thesis by (intro conjI)
qed

end
